theory Spec2Isabelle
  imports Main "HOL-Library.Sublist"
begin

section \<open>Text: characters, lines, integers\<close>

text \<open>
  A Python \<open>str\<close> is modelled as a \<open>string\<close> whose characters stand for the code
  points below 256. The character classes below are the ones CPython uses on that range:
  \<open>str.isspace\<close> (used by \<open>str.strip()\<close> and by \<open>\s\<close> in \<open>re\<close>), the decimal digits
  (\<open>\d\<close>), and the line boundaries of \<open>str.splitlines\<close>.
\<close>

abbreviation LF :: char where "LF \<equiv> CHR 0x0A"
abbreviation CR :: char where "CR \<equiv> CHR 0x0D"
abbreviation dq :: char where "dq \<equiv> CHR 0x22"

definition is_space :: "char \<Rightarrow> bool" where
  "is_space c = (c \<in> set [CHR 0x09, LF, CHR 0x0B, CHR 0x0C, CR, CHR 0x1C, CHR 0x1D,
                            CHR 0x1E, CHR 0x1F, CHR 0x20, CHR 0x85, CHR 0xA0])"

definition is_digit :: "char \<Rightarrow> bool" where
  "is_digit c = (c \<in> set ''0123456789'')"

text \<open>The characters at which \<open>str.splitlines\<close> ends a line.\<close>

definition is_linebreak :: "char \<Rightarrow> bool" where
  "is_linebreak c = (c \<in> set [LF, CHR 0x0B, CHR 0x0C, CR, CHR 0x1C, CHR 0x1D, CHR 0x1E, CHR 0x85])"

text \<open>\<open>s.strip()\<close>, \<open>s.rstrip("\n")\<close>, \<open>s.split("|")\<close> and \<open>s.splitlines(True)\<close>.\<close>

definition rstrip_by :: "(char \<Rightarrow> bool) \<Rightarrow> string \<Rightarrow> string" where
  "rstrip_by p s = rev (dropWhile p (rev s))"

definition strip_by :: "(char \<Rightarrow> bool) \<Rightarrow> string \<Rightarrow> string" where
  "strip_by p s = rstrip_by p (dropWhile p s)"

definition strip :: "string \<Rightarrow> string" where
  "strip s = strip_by is_space s"

definition rstrip_nl :: "string \<Rightarrow> string" where
  "rstrip_nl s = rstrip_by (\<lambda>c. c = LF) s"

fun split_on :: "char \<Rightarrow> string \<Rightarrow> string list" where
  "split_on d [] = [[]]"
| "split_on d (x # xs) =
     (if x = d then [] # split_on d xs
      else (case split_on d xs of [] \<Rightarrow> [[x]] | p # ps \<Rightarrow> (x # p) # ps))"

fun splitlines :: "string \<Rightarrow> string list" where
  "splitlines [] = []"
| "splitlines (x # xs) =
     (if x = CR then
        (case xs of
           [] \<Rightarrow> [[x]]
         | y # ys \<Rightarrow> if y = LF then [x, y] # splitlines ys else [x] # splitlines xs)
      else if is_linebreak x then [x] # splitlines xs
      else (case splitlines xs of [] \<Rightarrow> [[x]] | l # ls \<Rightarrow> (x # l) # ls))"

text \<open>
  Text-mode file access. \<open>Path.read_text\<close> opens the file with universal newlines: every
  \<open>\r\n\<close> and every lone \<open>\r\<close> of the stored text is read as \<open>\n\<close>. \<open>Path.write_text\<close>
  writes every \<open>\n\<close> as the line separator of the platform.
\<close>

datatype platform = Windows | Posix

fun linesep :: "platform \<Rightarrow> string" where
  "linesep Windows = [CR, LF]"
| "linesep Posix = [LF]"

fun universal_newlines :: "string \<Rightarrow> string" where
  "universal_newlines [] = []"
| "universal_newlines (x # xs) =
     (if x = CR then
        (case xs of
           [] \<Rightarrow> [LF]
         | y # ys \<Rightarrow> if y = LF then LF # universal_newlines ys else LF # universal_newlines xs)
      else x # universal_newlines xs)"

definition translate_newlines :: "platform \<Rightarrow> string \<Rightarrow> string" where
  "translate_newlines os s = concat (map (\<lambda>c. if c = LF then linesep os else [c]) s)"

text \<open>
  Decimal text of integers. \<open>int(s)\<close> accepts surrounding white space (a smaller class
  than \<open>isspace\<close>: the separators \<open>0x1C\<close> to \<open>0x1F\<close> are not accepted), one sign, and digits
  with single underscores between them; anything else is a \<open>ValueError\<close>, here \<open>None\<close>.
  Both directions refuse more than 4300 digits (the interpreter's default limit).
\<close>

definition int_max_str_digits :: nat where
  "int_max_str_digits = 4300"

definition digit_char :: "nat \<Rightarrow> char" where
  "digit_char d = ''0123456789'' ! d"

definition digit_val :: "char \<Rightarrow> nat" where
  "digit_val c = length (takeWhile (\<lambda>x. x \<noteq> c) ''0123456789'')"

fun dec_nat :: "nat \<Rightarrow> string" where
  "dec_nat n = (if n < 10 then [digit_char n] else dec_nat (n div 10) @ [digit_char (n mod 10)])"

declare dec_nat.simps [simp del]

definition nat_of_digits :: "string \<Rightarrow> nat" where
  "nat_of_digits ds = foldl (\<lambda>a c. 10 * a + digit_val c) 0 ds"

text \<open>\<open>str(n)\<close> and \<open>f"{n}"\<close> for an integer; \<open>None\<close> is the \<open>ValueError\<close> of the digit limit.\<close>

definition str_int :: "int \<Rightarrow> string option" where
  "str_int n =
     (let ds = dec_nat (nat \<bar>n\<bar>) in
      if length ds > int_max_str_digits then None
      else Some (if n < 0 then CHR ''-'' # ds else ds))"

definition int_space :: "char \<Rightarrow> bool" where
  "int_space c = (c \<in> set [CHR 0x09, LF, CHR 0x0B, CHR 0x0C, CR, CHR 0x20, CHR 0x85, CHR 0xA0])"

fun digits_underscored :: "string \<Rightarrow> bool" where
  "digits_underscored [] = False"
| "digits_underscored [c] = is_digit c"
| "digits_underscored (c # d # r) =
     (is_digit c \<and> (if d = CHR ''_'' then digits_underscored r else digits_underscored (d # r)))"

definition py_int :: "string \<Rightarrow> int option" where
  "py_int s =
     (let t = strip_by int_space s;
          neg = (t \<noteq> [] \<and> hd t = CHR ''-'');
          body = (if t \<noteq> [] \<and> (hd t = CHR ''-'' \<or> hd t = CHR ''+'') then tl t else t);
          ds = filter is_digit body
      in if digits_underscored body \<and> length ds \<le> int_max_str_digits
         then Some (if neg then - int (nat_of_digits ds) else int (nat_of_digits ds))
         else None)"

section \<open>Regular expressions\<close>

text \<open>
  The two patterns of the program use literals, the classes \<open>\s\<close>, \<open>\d\<close> and \<open>.\<close>, the
  greedy quantifiers \<open>*\<close> and \<open>+\<close> on a class, groups, and the anchors. \<open>rmatch\<close> is the
  backtracking match of \<open>re\<close> on such a sequence of items, anchored at the start of the
  subject as \<open>Pattern.match\<close> is (which makes the leading \<open>^\<close> redundant): a starred class
  first tries to take one more character and gives characters back only when the rest of
  the pattern fails; \<open>$\<close> holds at the end of the subject and before a final newline. The
  result lists the text each item consumed.
\<close>

datatype tok = Lit char | Cls "char \<Rightarrow> bool" | Star "char \<Rightarrow> bool" | Eos

fun rmatch :: "tok list \<Rightarrow> string \<Rightarrow> string list option" where
  "rmatch [] s = Some []"
| "rmatch (Lit c # ts) s =
     (case s of
        [] \<Rightarrow> None
      | x # xs \<Rightarrow> if x = c then map_option (Cons [x]) (rmatch ts xs) else None)"
| "rmatch (Cls p # ts) s =
     (case s of
        [] \<Rightarrow> None
      | x # xs \<Rightarrow> if p x then map_option (Cons [x]) (rmatch ts xs) else None)"
| "rmatch (Star p # ts) s =
     (case s of
        [] \<Rightarrow> map_option (Cons []) (rmatch ts [])
      | x # xs \<Rightarrow>
          (case (if p x then rmatch (Star p # ts) xs else None) of
             Some (g # gs) \<Rightarrow> Some ((x # g) # gs)
           | _ \<Rightarrow> map_option (Cons []) (rmatch ts s)))"
| "rmatch (Eos # ts) s =
     (if s = [] \<or> s = [LF] then map_option (Cons []) (rmatch ts s) else None)"

text \<open>
  A pattern is its items, each tagged with the group it belongs to (0: no group). A match
  is the list of its groups: the whole match at position 0, then group 1, group 2, ...
\<close>

type_synonym regex = "(nat \<times> tok) list"

definition re_group :: "regex \<Rightarrow> string list \<Rightarrow> nat \<Rightarrow> string" where
  "re_group re segs k =
     (if k = 0 then concat segs
      else concat (map snd (filter (\<lambda>p. fst p = k) (zip (map fst re) segs))))"

definition re_match :: "regex \<Rightarrow> string \<Rightarrow> string list option" where
  "re_match re s =
     map_option (\<lambda>segs. map (re_group re segs) [0..<Suc (fold max (map fst re) 0)])
       (rmatch (map snd re) s)"

definition lits :: "string \<Rightarrow> regex" where
  "lits s = map (\<lambda>c. (0, Lit c)) s"

text \<open>\<^verbatim>\<open>STREAM_RE = ^\s*stream_data\[(\d+)\]\s*:\s*"(.*)"\s*$\<close>\<close>

definition STREAM_RE :: regex where
  "STREAM_RE =
     [(0, Star is_space)] @ lits ''stream_data['' @
     [(1, Cls is_digit), (1, Star is_digit), (0, Lit CHR '']''), (0, Star is_space),
      (0, Lit CHR '':''), (0, Star is_space), (0, Lit dq), (2, Star (\<lambda>c. c \<noteq> LF)),
      (0, Lit dq), (0, Star is_space), (0, Eos)]"

text \<open>\<^verbatim>\<open>STREAM_COUNT_RE = ^(\s*stream_data\s*:\s*)(\d+)(\s*)$\<close>\<close>

definition STREAM_COUNT_RE :: regex where
  "STREAM_COUNT_RE =
     [(1, Star is_space)] @ map (\<lambda>c. (1, Lit c)) ''stream_data'' @
     [(1, Star is_space), (1, Lit CHR '':''), (1, Star is_space),
      (2, Cls is_digit), (2, Star is_digit), (3, Star is_space), (0, Eos)]"

section \<open>Stations and their lines\<close>

record Station =
  url :: string
  name :: string
  genre :: string
  language :: string
  bitrate :: int
  favorite :: bool

text \<open>
  Exceptions are values. \<open>OSError\<close> carries the name of the subclass the operating system
  call raises; the program never looks at it.
\<close>

datatype py_error = ValueError string | IndexError | RuntimeError string | OSError string

text \<open>
  The body of the loop of \<open>parse_live_streams\<close> (source lines 96 to 117): the station a
  line decodes to, or \<open>None\<close> where the loop says \<open>continue\<close>.
\<close>

definition station_of_line :: "string \<Rightarrow> Station option" where
  "station_of_line line =
     (case re_match STREAM_RE (rstrip_nl line) of
        None \<Rightarrow> None
      | Some m \<Rightarrow>
          (let payload = m ! 2; parts = split_on CHR ''|'' payload in
           if length parts \<noteq> 6 then None
           else
             let bitrate_i = (case py_int (parts ! 4) of Some b \<Rightarrow> b | None \<Rightarrow> 0) in
             Some \<lparr>url = strip (parts ! 0), name = strip (parts ! 1), genre = strip (parts ! 2),
                   language = strip (parts ! 3), bitrate = bitrate_i,
                   favorite = (strip (parts ! 5) = ''1'')\<rparr>))"

text \<open>
  \<open>station_to_line\<close>. The ordinal is a position in a list, rendered in decimal; the
  bitrate goes through \<open>str_int\<close>, whose digit limit is a \<open>ValueError\<close>.
\<close>

definition station_to_line :: "nat \<Rightarrow> Station \<Rightarrow> py_error + string" where
  "station_to_line i s =
     (if \<exists>field \<in> set [url s, name s, genre s, language s]. CHR ''|'' \<in> set field
      then Inl (ValueError (''Fields cannot contain the '' @ [CHR 0x27] @ ''|'' @ [CHR 0x27] @ '' character.''))
      else
        (case str_int (bitrate s) of
           None \<Rightarrow> Inl (ValueError ''Exceeds the limit (4300 digits) for integer string conversion'')
         | Some b \<Rightarrow>
             let fav = (if favorite s then ''1'' else ''0'') in
             Inr (''stream_data['' @ dec_nat i @ '']: '' @ [dq] @ url s @ ''|'' @ name s @ ''|'' @
                  genre s @ ''|'' @ language s @ ''|'' @ b @ ''|'' @ fav @ [dq, LF])))"

section \<open>Files\<close>

text \<open>
  A path is the list of its parts below the anchor (the root or the current directory);
  the anchor itself is the empty list and is a directory. The file system gives each path
  the object found there: a regular file with its stored text, a directory, or a symbolic
  link together with what it resolves to (\<open>None\<close>: dangling). Distinct paths are distinct
  objects: a link carries the file it resolves to, so a write through a link is seen
  through that link only, and files reachable under two names are outside this model.
  Failures that depend on permissions or on the device are not modelled.

  The stored text of a file is the text its bytes decode to as UTF-8, with the line ends
  as stored. The bytes themselves are not part of the model: \<open>read_text\<close> with
  \<open>errors="replace"\<close> turns an invalid byte into the replacement character, which is
  outside the characters considered here (code points below 256), so every statement
  about a file below is about its decoded text and none is about its bytes.
\<close>

type_synonym path = "string list"

datatype target = TFile string | TDir

datatype node = File string | Dir | Link "target option"

type_synonym fs = "path \<Rightarrow> node option"

definition parent :: "path \<Rightarrow> path" where
  "parent p = butlast p"

definition basename :: "path \<Rightarrow> string" where
  "basename p = (if p = [] then [] else last p)"

definition node_at :: "fs \<Rightarrow> path \<Rightarrow> node option" where
  "node_at f p = (if p = [] then Some Dir else f p)"

text \<open>\<open>Path.exists\<close>, \<open>is_dir\<close> and \<open>is_file\<close> follow links; \<open>is_symlink\<close> does not.\<close>

definition path_exists :: "fs \<Rightarrow> path \<Rightarrow> bool" where
  "path_exists f p = (case node_at f p of None \<Rightarrow> False | Some (Link None) \<Rightarrow> False | Some _ \<Rightarrow> True)"

definition is_symlink :: "fs \<Rightarrow> path \<Rightarrow> bool" where
  "is_symlink f p = (case node_at f p of Some (Link _) \<Rightarrow> True | _ \<Rightarrow> False)"

definition is_dir :: "fs \<Rightarrow> path \<Rightarrow> bool" where
  "is_dir f p = (case node_at f p of Some Dir \<Rightarrow> True | Some (Link (Some TDir)) \<Rightarrow> True | _ \<Rightarrow> False)"

definition is_file :: "fs \<Rightarrow> path \<Rightarrow> bool" where
  "is_file f p = (case node_at f p of Some (File _) \<Rightarrow> True | Some (Link (Some (TFile _))) \<Rightarrow> True | _ \<Rightarrow> False)"

text \<open>The stored text of the file a path leads to.\<close>

definition content_at :: "fs \<Rightarrow> path \<Rightarrow> string option" where
  "content_at f p =
     (case node_at f p of
        Some (File c) \<Rightarrow> Some c
      | Some (Link (Some (TFile c))) \<Rightarrow> Some c
      | _ \<Rightarrow> None)"

definition read_text :: "fs \<Rightarrow> path \<Rightarrow> py_error + string" where
  "read_text f p =
     (case content_at f p of
        Some c \<Rightarrow> Inr (universal_newlines c)
      | None \<Rightarrow> if is_dir f p then Inl (OSError ''IsADirectoryError'')
                else Inl (OSError ''FileNotFoundError''))"

definition write_text :: "platform \<Rightarrow> fs \<Rightarrow> path \<Rightarrow> string \<Rightarrow> py_error + fs" where
  "write_text os f p text =
     (if is_dir f p then Inl (OSError ''IsADirectoryError'')
      else if \<not> is_dir f (parent p) then Inl (OSError ''FileNotFoundError'')
      else
        let c = translate_newlines os text in
        Inr (f(p \<mapsto> (if is_symlink f p then Link (Some (TFile c)) else File c))))"

text \<open>\<open>Path.mkdir(parents=True, exist_ok=True)\<close>: every missing ancestor is created.\<close>

fun mkdirs :: "fs \<Rightarrow> path list \<Rightarrow> py_error + fs" where
  "mkdirs f [] = Inr f"
| "mkdirs f (d # ds) =
     (if is_dir f d then mkdirs f ds
      else if node_at f d = None then mkdirs (f(d \<mapsto> Dir)) ds
      else Inl (OSError ''FileExistsError''))"

definition mkdir_parents :: "fs \<Rightarrow> path \<Rightarrow> py_error + fs" where
  "mkdir_parents f p = mkdirs f (prefixes p)"

section \<open>Reading a document\<close>

text \<open>
  \<open>parse_live_streams\<close>: the lines of the file, the positions of the lines that decode,
  and the stations they decode to.
\<close>

definition parse_live_streams ::
  "fs \<Rightarrow> path \<Rightarrow> py_error + (string list \<times> nat list \<times> Station list)" where
  "parse_live_streams f p =
     (if \<not> path_exists f p then Inl (ValueError ''File does not exist.'')
      else
        (case read_text f p of
           Inl e \<Rightarrow> Inl e
         | Inr text \<Rightarrow>
             let lines = splitlines text;
                 found = List.map_filter
                           (\<lambda>(i, line). map_option (Pair i) (station_of_line line))
                           (enumerate 0 lines);
                 stations = map snd found;
                 station_line_indexes = map fst found
             in if stations = []
                then Inl (ValueError ''No stream_data[...] station entries found in this file.'')
                else Inr (lines, station_line_indexes, stations)))"

section \<open>Writing a document\<close>

text \<open>\<open>_find_trailing_brace_tail_start\<close>: the loop counts \<open>i\<close> down from the length.\<close>

fun tail_start_from :: "string list \<Rightarrow> nat \<Rightarrow> nat" where
  "tail_start_from lines 0 = 0"
| "tail_start_from lines (Suc n) =
     (let t = strip (lines ! n) in
      if t = [] \<or> t = ''}'' then tail_start_from lines n else Suc n)"

definition find_trailing_brace_tail_start :: "string list \<Rightarrow> nat" where
  "find_trailing_brace_tail_start lines = tail_start_from lines (length lines)"

text \<open>
  \<open>_update_stream_data_count_line\<close>: the first line that matches is rewritten and the loop
  returns; the result is the list after the call and the returned flag.
\<close>

definition endswith_nl :: "string \<Rightarrow> bool" where
  "endswith_nl line = (line \<noteq> [] \<and> last line = LF)"

definition count_line :: "string list \<Rightarrow> string \<Rightarrow> nat \<Rightarrow> string" where
  "count_line m line count =
     (let prefix = m ! 1; suffix = m ! 3; newline = (if endswith_nl line then [LF] else [])
      in prefix @ dec_nat count @ suffix @ newline)"

fun update_stream_data_count_line :: "string list \<Rightarrow> nat \<Rightarrow> string list \<times> bool" where
  "update_stream_data_count_line [] count = ([], False)"
| "update_stream_data_count_line (line # rest) count =
     (case re_match STREAM_COUNT_RE (rstrip_nl line) of
        None \<Rightarrow> (case update_stream_data_count_line rest count of (r, b) \<Rightarrow> (line # r, b))
      | Some m \<Rightarrow> (count_line m line count # rest, True))"

text \<open>
  \<open>del lines[i]\<close> and \<open>lines.insert(i, x)\<close>. Positions are the ones the parser recorded,
  natural numbers; a position past the end makes \<open>del\<close> raise, and \<open>insert\<close> append.
\<close>

definition list_del :: "'a list \<Rightarrow> nat \<Rightarrow> py_error + 'a list" where
  "list_del xs i = (if i < length xs then Inr (take i xs @ drop (Suc i) xs) else Inl IndexError)"

fun del_all :: "'a list \<Rightarrow> nat list \<Rightarrow> py_error + 'a list" where
  "del_all xs [] = Inr xs"
| "del_all xs (i # is) = (case list_del xs i of Inl e \<Rightarrow> Inl e | Inr ys \<Rightarrow> del_all ys is)"

definition list_insert :: "'a list \<Rightarrow> nat \<Rightarrow> 'a \<Rightarrow> 'a list" where
  "list_insert xs i x = take i xs @ x # drop i xs"

fun insert_all :: "'a list \<Rightarrow> nat \<Rightarrow> 'a list \<Rightarrow> 'a list" where
  "insert_all xs pos [] = xs"
| "insert_all xs pos (y # ys) = insert_all (list_insert xs pos y) (Suc pos) ys"

fun encode_all :: "nat \<Rightarrow> Station list \<Rightarrow> py_error + string list" where
  "encode_all i [] = Inr []"
| "encode_all i (s # ss) =
     (case station_to_line i s of
        Inl e \<Rightarrow> Inl e
      | Inr l \<Rightarrow> (case encode_all (Suc i) ss of Inl e \<Rightarrow> Inl e | Inr ls \<Rightarrow> Inr (l # ls)))"

text \<open>
  The part of \<open>write_live_streams\<close> between the backup and the final write. First the
  stations are encoded, the old station lines deleted and the new ones placed (source
  lines 175 to 204): \<open>placed_lines\<close> is the working sequence at that point, or the
  exception raised on the way. Then the count line is brought up to date (line 207):
  \<open>new_document_lines\<close> is the sequence that is written.
\<close>

definition placed_lines ::
  "string list \<Rightarrow> nat list \<Rightarrow> Station list \<Rightarrow> string \<Rightarrow> py_error + string list" where
  "placed_lines original_lines station_line_indexes stations strategy =
     (case encode_all 0 stations of
        Inl e \<Rightarrow> Inl e
      | Inr new_station_lines \<Rightarrow>
          let idxs = sort station_line_indexes in
          (case del_all original_lines (rev idxs) of
             Inl e \<Rightarrow> Inl e
           | Inr lines \<Rightarrow>
               if strategy = ''new_slot'' then
                 let tail_start = find_trailing_brace_tail_start lines;
                     prefix = take tail_start lines;
                     tail = drop tail_start lines;
                     prefix = (if prefix \<noteq> [] \<and> strip (last prefix) \<noteq> []
                               then prefix @ [[LF]] else prefix);
                     station_block =
                       (if tail \<noteq> [] \<and> strip (hd tail) = ''}'' \<and> new_station_lines \<noteq> []
                           \<and> strip (last new_station_lines) \<noteq> []
                        then new_station_lines @ [[LF]] else new_station_lines)
                 in Inr (prefix @ station_block @ tail)
               else
                 (case idxs of
                    [] \<Rightarrow> Inl IndexError
                  | first # _ \<Rightarrow>
                      let first = max 0 (min first (length lines))
                      in Inr (insert_all lines first new_station_lines))))"

definition new_document_lines ::
  "string list \<Rightarrow> nat list \<Rightarrow> Station list \<Rightarrow> string \<Rightarrow> py_error + string list" where
  "new_document_lines original_lines station_line_indexes stations strategy =
     (case placed_lines original_lines station_line_indexes stations strategy of
        Inl e \<Rightarrow> Inl e
      | Inr lines \<Rightarrow> Inr (fst (update_stream_data_count_line lines (length stations))))"

text \<open>
  \<open>write_live_streams\<close>. \<open>ts\<close> is the clock reading, already formatted. The result is the
  file system after the call and the returned backup path or the exception.
\<close>

definition backup_path :: "path \<Rightarrow> string \<Rightarrow> path" where
  "backup_path p ts = parent p @ [''live_streams_backup'', basename p @ ''.bak_'' @ ts]"

definition write_live_streams ::
  "platform \<Rightarrow> string \<Rightarrow> fs \<Rightarrow> path \<Rightarrow> string list \<Rightarrow> nat list \<Rightarrow> Station list \<Rightarrow> string
     \<Rightarrow> fs \<times> (py_error + path)" where
  "write_live_streams os ts f p original_lines station_line_indexes stations strategy =
     (let backup_dir = parent p @ [''live_streams_backup''] in
      case mkdir_parents f backup_dir of
        Inl e \<Rightarrow> (f, Inl e)
      | Inr f1 \<Rightarrow>
          let backup = backup_dir @ [basename p @ ''.bak_'' @ ts] in
          (case write_text os f1 backup (concat original_lines) of
             Inl e \<Rightarrow> (f1, Inl e)
           | Inr f2 \<Rightarrow>
               (case new_document_lines original_lines station_line_indexes stations strategy of
                  Inl e \<Rightarrow> (f2, Inl e)
                | Inr lines \<Rightarrow>
                    (case write_text os f2 p (concat lines) of
                       Inl e \<Rightarrow> (f2, Inl e)
                     | Inr f3 \<Rightarrow> (f3, Inr backup)))))"

section \<open>Linking\<close>

text \<open>
  The operating system calls of the link manager. \<open>unlink\<close> removes a file or a link of
  any kind and refuses a directory; \<open>rmdir\<close> removes an empty directory or a directory
  link; \<open>rmtree\<close> removes a directory with everything below it; \<open>rename\<close> refuses a target
  that exists, as it does on the platform the link feature is restricted to (the program
  renames regular files only, so one entry moves).
\<close>

definition unlink :: "fs \<Rightarrow> path \<Rightarrow> py_error + fs" where
  "unlink f p =
     (case node_at f p of
        None \<Rightarrow> Inl (OSError ''FileNotFoundError'')
      | Some Dir \<Rightarrow> Inl (OSError ''IsADirectoryError'')
      | Some _ \<Rightarrow> Inr (f(p := None)))"

definition dir_empty :: "fs \<Rightarrow> path \<Rightarrow> bool" where
  "dir_empty f p = (\<forall>q. strict_prefix p q \<longrightarrow> f q = None)"

definition rmdir :: "fs \<Rightarrow> path \<Rightarrow> py_error + fs" where
  "rmdir f p =
     (case node_at f p of
        None \<Rightarrow> Inl (OSError ''FileNotFoundError'')
      | Some (Link (Some TDir)) \<Rightarrow> Inr (f(p := None))
      | Some Dir \<Rightarrow> if p \<noteq> [] \<and> dir_empty f p then Inr (f(p := None))
                    else Inl (OSError ''OSError'')
      | Some _ \<Rightarrow> Inl (OSError ''NotADirectoryError''))"

definition rmtree :: "fs \<Rightarrow> path \<Rightarrow> py_error + fs" where
  "rmtree f p =
     (if p \<noteq> [] \<and> node_at f p = Some Dir
      then Inr (\<lambda>q. if prefix p q then None else f q)
      else Inl (OSError ''OSError''))"

definition rename :: "fs \<Rightarrow> path \<Rightarrow> path \<Rightarrow> py_error + fs" where
  "rename f src dst =
     (if node_at f src = None \<or> src = [] then Inl (OSError ''FileNotFoundError'')
      else if node_at f dst \<noteq> None then Inl (OSError ''FileExistsError'')
      else Inr (f(dst := f src, src := None)))"

text \<open>\<open>PurePath.with_name\<close>: a path without a name has none to replace.\<close>

definition with_name :: "path \<Rightarrow> string \<Rightarrow> py_error + path" where
  "with_name p n = (if p = [] then Inl (ValueError ''path has an empty name'') else Inr (butlast p @ [n]))"

definition path_exists_any :: "fs \<Rightarrow> path \<Rightarrow> bool" where
  "path_exists_any f p = (path_exists f p \<or> is_symlink f p)"

definition remove_path_any :: "fs \<Rightarrow> path \<Rightarrow> py_error + fs" where
  "remove_path_any f p =
     (if \<not> path_exists_any f p then Inr f
      else if is_symlink f p then
        (case unlink f p of
           Inr f' \<Rightarrow> Inr f'
         | Inl e \<Rightarrow> if e = OSError ''IsADirectoryError'' then rmdir f p else Inl e)
      else if is_dir f p then rmtree f p
      else unlink f p)"

text \<open>
  \<open>_safe_backup_existing_dest\<close>; \<open>ts\<close> is the formatted clock reading. The result is the
  file system after the call and the returned backup path (\<open>None\<close>: no backup) or the
  exception.
\<close>

definition safe_backup_existing_dest :: "string \<Rightarrow> fs \<Rightarrow> path \<Rightarrow> fs \<times> (py_error + path option)" where
  "safe_backup_existing_dest ts f dest =
     (if \<not> path_exists_any f dest then (f, Inr None)
      else if is_dir f dest \<or> is_symlink f dest then
        (case remove_path_any f dest of
           Inl e \<Rightarrow> (f, Inl e)
         | Inr f' \<Rightarrow> (f', Inr None))
      else
        (case with_name dest (basename dest @ ''.backup'') of
           Inl e \<Rightarrow> (f, Inl e)
         | Inr backup \<Rightarrow>
             (case (if path_exists f backup \<or> is_symlink f backup
                    then with_name dest (basename dest @ ''.backup_'' @ ts)
                    else Inr backup) of
                Inl e \<Rightarrow> (f, Inl e)
              | Inr backup \<Rightarrow>
                  (case rename f dest backup of
                     Inl e \<Rightarrow> (f, Inl e)
                   | Inr f' \<Rightarrow> (f', Inr (Some backup))))))"

text \<open>
  \<open>_mklink_symlink_admin\<close>. The elevated run is the environment's step: \<open>run\<close> takes the
  PowerShell command and the file system and gives the file system it leaves with the
  captured output, or the exception of \<open>subprocess.run\<close>. \<open>render\<close> is \<open>str\<close> on paths;
  \<open>temp_dir\<close> the directory \<open>TEMP\<close> names; \<open>ts\<close> the formatted clock reading.
\<close>

record completed =
  stdout :: string
  stderr :: string

definition mklink_symlink_admin ::
  "platform \<Rightarrow> (string \<Rightarrow> fs \<Rightarrow> py_error + fs \<times> completed) \<Rightarrow> (path \<Rightarrow> string) \<Rightarrow> path
     \<Rightarrow> string \<Rightarrow> fs \<Rightarrow> path \<Rightarrow> path \<Rightarrow> fs \<times> (py_error + bool \<times> string)" where
  "mklink_symlink_admin os run render temp_dir ts f dest src =
     (let cmd_file = temp_dir @ [''radio_link_'' @ ts @ ''.cmd''];
          log_file = temp_dir @ [''radio_link_'' @ ts @ ''.log''];
          mk_cmd = ''mklink '' @ [dq] @ render dest @ [dq] @ '' '' @ [dq] @ render src @ [dq];
          cmd_contents = ''@echo off'' @ [LF] @
                         mk_cmd @ '' > '' @ [dq] @ render log_file @ [dq] @ '' 2>&1'' @ [LF] @
                         ''exit /b %errorlevel%'' @ [LF]
      in case write_text os f cmd_file cmd_contents of
           Inl e \<Rightarrow> (f, Inl e)
         | Inr f1 \<Rightarrow>
             let ps = ''Start-Process -FilePath '' @ [dq] @ render cmd_file @ [dq] @
                      '' -Verb RunAs -WindowStyle Hidden -Wait''
             in (case run ps f1 of
                   Inl e \<Rightarrow> (f1, Inl e)
                 | Inr (f2, r) \<Rightarrow>
                     let output = (if path_exists f2 log_file
                                   then (case read_text f2 log_file of
                                           Inr t \<Rightarrow> strip t
                                         | Inl _ \<Rightarrow> [])
                                   else []);
                         f3 = (case (if node_at f2 cmd_file = None then Inr f2
                                     else unlink f2 cmd_file) of
                                 Inr g \<Rightarrow> g
                               | Inl _ \<Rightarrow>
                                   (if path_exists f2 cmd_file
                                    then (case unlink f2 cmd_file of Inr g \<Rightarrow> g | Inl _ \<Rightarrow> f2)
                                    else f2))
                     in if path_exists f3 dest \<or> is_symlink f3 dest
                        then (f3, Inr (True, if output = [] then ''mklink completed.'' else output))
                        else
                          let extra = strip (if stderr r \<noteq> [] then stderr r else stdout r);
                              output = (if extra \<noteq> [] \<and> output \<noteq> []
                                        then output @ [LF, LF] @ extra
                                        else if extra \<noteq> [] \<and> output = [] then extra
                                        else output)
                          in (f3, Inr (False, if output = [] then ''mklink failed or was canceled.''
                                              else output))))"

section \<open>Sample inputs\<close>

text \<open>Files, documents and stations at which the results below are instantiated.\<close>

definition station_a :: Station where
  "station_a = \<lparr>url = ''http://a'', name = ''A'', genre = ''pop'', language = ''en'',
                bitrate = 128, favorite = False\<rparr>"

definition station_piped :: Station where
  "station_piped = \<lparr>url = ''http://a'', name = ''A|B'', genre = ''pop'', language = ''en'',
                    bitrate = 128, favorite = False\<rparr>"

definition line_a :: string where
  \<open>line_a = ''stream_data[0]: "http://a|A|pop|en|128|0"'' @ [LF]\<close>

definition doc_path :: path where
  "doc_path = [''docs'', ''live_streams.sii'']"

definition fs_one :: fs where
  "fs_one = Map.empty([''docs''] \<mapsto> Dir, doc_path \<mapsto> File (''stream_data: 1'' @ [LF] @ line_a))"

definition fs_plain :: fs where
  "fs_plain = Map.empty([''docs''] \<mapsto> Dir, doc_path \<mapsto> File (''SiiNunit'' @ [LF] @ ''{'' @ [LF] @ ''}'' @ [LF]))"

definition two_counts :: "string list" where
  "two_counts = ['' stream_data: 7'' @ [LF], line_a, ''stream_data: 9'' @ [LF]]"


definition doc_negative :: string where
  \<open>doc_negative = ''stream_data[0]: "http://b|B|pop|en|-5|1"'' @ [LF]\<close>

definition station_negative :: Station where
  "station_negative = \<lparr>url = ''http://b'', name = ''B'', genre = ''pop'', language = ''en'',
                       bitrate = - 5, favorite = True\<rparr>"

definition fs_negative :: fs where
  "fs_negative = Map.empty([''docs''] \<mapsto> Dir, doc_path \<mapsto> File doc_negative)"

definition link_dest :: path where
  "link_dest = [''docs'', ''ats'', ''live_streams.sii'']"

definition fs_dest_file :: fs where
  "fs_dest_file = Map.empty(link_dest \<mapsto> File ''old'')"

definition fs_dest_taken :: fs where
  "fs_dest_taken = Map.empty(link_dest \<mapsto> File ''old'',
                             [''docs'', ''ats'', ''live_streams.sii.backup''] \<mapsto> File ''older'')"

definition fs_dest_link :: fs where
  "fs_dest_link = Map.empty(link_dest \<mapsto> Link None)"

definition fs_dest_dir :: fs where
  "fs_dest_dir = Map.empty(link_dest \<mapsto> Dir, link_dest @ [''x''] \<mapsto> File ''y'')"

definition render_win :: "path \<Rightarrow> string" where
  "render_win p = ''C:'' @ concat (map (\<lambda>c. CHR 0x5C # c) p)"

definition fs_temp :: fs where
  "fs_temp = Map.empty([''Temp''] \<mapsto> Dir, doc_path \<mapsto> File line_a)"

definition run_denied :: "string \<Rightarrow> fs \<Rightarrow> py_error + fs \<times> completed" where
  "run_denied ps f =
     Inr (f([''Temp'', ''radio_link_20240101_000000_000000.log''] \<mapsto> File ''Access is denied.''),
          \<lparr>stdout = [], stderr = []\<rparr>)"

definition radio_path :: path where
  "radio_path = [''docs'', ''radio.sii'']"

definition fs_crlf :: fs where
  \<open>fs_crlf = Map.empty([''docs''] \<mapsto> Dir,
                        radio_path \<mapsto> File (''SiiNunit'' @ [CR, LF] @
                            ''stream_data[0]: "http://a|A|pop|en|128|0"'' @ [CR, LF]))\<close>

definition line_a1 :: string where
  \<open>line_a1 = ''stream_data[1]: "http://a|A|pop|en|128|0"'' @ [LF]\<close>

definition doc_hyphen :: string where
  \<open>doc_hyphen = ''stream_data[0]: "http://my-radio|R|pop|en|5|1"'' @ [LF]\<close>

definition station_hyphen :: Station where
  "station_hyphen = \<lparr>url = ''http://my-radio'', name = ''R'', genre = ''pop'', language = ''en'',
                     bitrate = 5, favorite = True\<rparr>"

definition fs_hyphen :: fs where
  "fs_hyphen = Map.empty([''docs''] \<mapsto> Dir, doc_path \<mapsto> File doc_hyphen)"



section \<open>Basic facts about the file operations\<close>

lemma backup_neq: "butlast p @ [a, b] \<noteq> p"
proof
  assume "butlast p @ [a, b] = p"
  then have "length (butlast p @ [a, b]) = length p" by simp
  then show False by simp
qed

lemma mkdirs_keeps: "mkdirs f ds = Inr f' \<Longrightarrow> f' q = f q \<or> (f q = None \<and> f' q = Some Dir)"
proof (induction ds arbitrary: f)
  case Nil
  then show ?case by simp
next
  case (Cons d ds)
  show ?case
  proof (cases "is_dir f d")
    case True
    with Cons show ?thesis by simp
  next
    case False
    with Cons.prems have n: "node_at f d = None" and m: "mkdirs (f(d \<mapsto> Dir)) ds = Inr f'"
      by (auto split: if_splits)
    from n have fd: "f d = None" by (auto simp: node_at_def split: if_splits)
    from Cons.IH[OF m] fd show ?thesis by (auto split: if_splits)
  qed
qed

lemma write_text_other: "write_text os f p t = Inr f' \<Longrightarrow> q \<noteq> p \<Longrightarrow> f' q = f q"
  by (auto simp: write_text_def Let_def split: if_splits)

lemma content_exists: "content_at f p = Some c \<Longrightarrow> path_exists f p"
  by (auto simp: content_at_def path_exists_def split: option.splits node.splits target.splits)

section \<open>Parsing: the three outcomes\<close>

lemma parse_found_Nil:
  "(List.map_filter (\<lambda>(i, line). map_option (Pair i) (station_of_line line)) (enumerate n ls) = [])
    \<longleftrightarrow> (\<forall>l\<in>set ls. station_of_line l = None)"
  by (induction ls arbitrary: n) (auto simp: List.map_filter_simps split: option.splits)

text \<open>
  Claim C6, as amended. \<open>parse_live_streams\<close> raises \<open>ValueError("File does not exist.")\<close>,
  the FileNotFound of the specification, when the path does not exist. When the path
  exists and leads to a directory rather than to a file, the only test made is
  \<open>exists()\<close>, and the error that \<open>read_text\<close> raises for a directory comes out. When the
  path leads to a file, it raises \<open>ValueError("No stream_data[...] station entries found
  in this file.")\<close>, the NoStationsFound of the specification, if no line of the file
  decodes to a station, and otherwise it returns a document with at least one station.
  The three cases are all there are: a path that exists and has no text is a directory.
\<close>

theorem parse_outcomes:
  "(\<not> path_exists f p \<longrightarrow> parse_live_streams f p = Inl (ValueError ''File does not exist.''))
   \<and> (path_exists f p \<and> content_at f p = None \<longrightarrow>
        is_dir f p \<and> parse_live_streams f p = Inl (OSError ''IsADirectoryError''))
   \<and> (\<forall>c. content_at f p = Some c \<longrightarrow>
         (if \<forall>l\<in>set (splitlines (universal_newlines c)). station_of_line l = None
          then parse_live_streams f p =
                 Inl (ValueError ''No stream_data[...] station entries found in this file.'')
          else \<exists>lines idxs stations.
                 parse_live_streams f p = Inr (lines, idxs, stations) \<and> stations \<noteq> []))"
proof (intro conjI allI impI)
  assume "\<not> path_exists f p"
  then show "parse_live_streams f p = Inl (ValueError ''File does not exist.'')"
    by (simp add: parse_live_streams_def)
next
  assume a: "path_exists f p \<and> content_at f p = None"
  then show d: "is_dir f p"
    by (auto simp: path_exists_def content_at_def is_dir_def
             split: option.splits node.splits target.splits)
  with a show "parse_live_streams f p = Inl (OSError ''IsADirectoryError'')"
    by (simp add: parse_live_streams_def read_text_def)
next
  fix c assume c: "content_at f p = Some c"
  then have ex: "path_exists f p" by (rule content_exists)
  from c have rd: "read_text f p = Inr (universal_newlines c)" by (simp add: read_text_def)
  show "if \<forall>l\<in>set (splitlines (universal_newlines c)). station_of_line l = None
          then parse_live_streams f p =
                 Inl (ValueError ''No stream_data[...] station entries found in this file.'')
          else \<exists>lines idxs stations.
                 parse_live_streams f p = Inr (lines, idxs, stations) \<and> stations \<noteq> []"
    using ex rd parse_found_Nil[of 0 "splitlines (universal_newlines c)"]
    by (simp add: parse_live_streams_def Let_def)
qed

text \<open>
  Claim C6 as stated fails: its three outcomes leave out a path that exists and is a
  directory. There \<open>parse_live_streams\<close> raises neither of the two \<open>ValueError\<close>s and
  returns no document.
\<close>

theorem directory_not_parsed:
  "path_exists fs_dest_dir link_dest
   \<and> parse_live_streams fs_dest_dir link_dest = Inl (OSError ''IsADirectoryError'')
   \<and> parse_live_streams fs_dest_dir link_dest \<noteq> Inl (ValueError ''File does not exist.'')
   \<and> parse_live_streams fs_dest_dir link_dest
       \<noteq> Inl (ValueError ''No stream_data[...] station entries found in this file.'')"
  by code_simp

theorem parse_outcomes_witness:
  "parse_live_streams Map.empty doc_path = Inl (ValueError ''File does not exist.'')
   \<and> is_dir fs_dest_dir link_dest
   \<and> parse_live_streams fs_dest_dir link_dest = Inl (OSError ''IsADirectoryError'')
   \<and> parse_live_streams fs_plain doc_path =
       Inl (ValueError ''No stream_data[...] station entries found in this file.'')
   \<and> (\<exists>lines idxs stations.
         parse_live_streams fs_one doc_path = Inr (lines, idxs, stations) \<and> stations \<noteq> [])"
proof -
  have "\<not> path_exists Map.empty doc_path" by code_simp
  with parse_outcomes[of Map.empty doc_path]
  have w1: "parse_live_streams Map.empty doc_path = Inl (ValueError ''File does not exist.'')"
    by blast
  have d: "path_exists fs_dest_dir link_dest \<and> content_at fs_dest_dir link_dest = None"
    by code_simp
  from parse_outcomes[of fs_dest_dir link_dest, THEN conjunct2, THEN conjunct1, rule_format, OF d]
  have w2: "is_dir fs_dest_dir link_dest
            \<and> parse_live_streams fs_dest_dir link_dest = Inl (OSError ''IsADirectoryError'')" .
  let ?c = "''SiiNunit'' @ [LF] @ ''{'' @ [LF] @ ''}'' @ [LF]"
  have c: "content_at fs_plain doc_path = Some ?c" by code_simp
  have n: "\<forall>l\<in>set (splitlines (universal_newlines ?c)). station_of_line l = None" by code_simp
  from parse_outcomes[of fs_plain doc_path, THEN conjunct2, THEN conjunct2, rule_format, OF c]
  have w3: "parse_live_streams fs_plain doc_path =
          Inl (ValueError ''No stream_data[...] station entries found in this file.'')"
    unfolding if_P[OF n] .
  let ?c1 = "''stream_data: 1'' @ [LF] @ line_a"
  have c1: "content_at fs_one doc_path = Some ?c1" by code_simp
  have n1: "\<not> (\<forall>l\<in>set (splitlines (universal_newlines ?c1)). station_of_line l = None)"
    by code_simp
  from parse_outcomes[of fs_one doc_path, THEN conjunct2, THEN conjunct2, rule_format, OF c1]
  have w4: "\<exists>lines idxs stations.
          parse_live_streams fs_one doc_path = Inr (lines, idxs, stations) \<and> stations \<noteq> []"
    unfolding if_not_P[OF n1] .
  from w1 w2 w3 w4 show ?thesis by (intro conjI) simp_all
qed

section \<open>Encoding: the delimiter\<close>

lemma encode_all_pipe:
  "s \<in> set ss \<Longrightarrow>
   CHR ''|'' \<in> set (url s) \<or> CHR ''|'' \<in> set (name s) \<or> CHR ''|'' \<in> set (genre s)
     \<or> CHR ''|'' \<in> set (language s) \<Longrightarrow>
   \<exists>e. encode_all i ss = Inl e"
proof (induction ss arbitrary: i)
  case Nil
  then show ?case by simp
next
  case (Cons a ss)
  show ?case
  proof (cases "s = a")
    case True
    with Cons.prems show ?thesis by (auto simp: station_to_line_def)
  next
    case False
    with Cons.prems have "s \<in> set ss" by simp
    from Cons.IH[OF this Cons.prems(2), of "Suc i"] show ?thesis
      by (auto split: sum.splits)
  qed
qed

text \<open>
  Claim C5. For a station with \<open>|\<close> in its url, name, genre or language,
  \<open>station_to_line\<close> raises \<open>ValueError("Fields cannot contain the '|' character.")\<close>, the
  FieldContainsDelimiter of the specification. A write of a list that holds such a
  station raises, and the destination keeps its content: whatever was at the path before
  the call is there after it.
\<close>

theorem delimiter_rejected:
  assumes "CHR ''|'' \<in> set (url s) \<or> CHR ''|'' \<in> set (name s) \<or> CHR ''|'' \<in> set (genre s)
             \<or> CHR ''|'' \<in> set (language s)"
  shows "station_to_line i s =
           Inl (ValueError (''Fields cannot contain the '' @ [CHR 0x27] @ ''|'' @ [CHR 0x27]
                            @ '' character.''))
    \<and> (s \<in> set stations \<longrightarrow>
         (\<exists>e. snd (write_live_streams os ts f p original_lines idxs stations strategy) = Inl e)
         \<and> content_at (fst (write_live_streams os ts f p original_lines idxs stations strategy)) p
             = content_at f p
         \<and> (f p \<noteq> None \<longrightarrow>
              fst (write_live_streams os ts f p original_lines idxs stations strategy) p = f p))"
proof (intro conjI impI)
  show "station_to_line i s =
          Inl (ValueError (''Fields cannot contain the '' @ [CHR 0x27] @ ''|'' @ [CHR 0x27]
                           @ '' character.''))"
    using assms by (auto simp: station_to_line_def)
next
  assume mem: "s \<in> set stations"
  from encode_all_pipe[OF mem assms, of 0] obtain e where "encode_all 0 stations = Inl e"
    by blast
  then have nd: "new_document_lines original_lines idxs stations strategy = Inl e"
    by (simp add: new_document_lines_def placed_lines_def)
  let ?w = "write_live_streams os ts f p original_lines idxs stations strategy"
  let ?b = "parent p @ [''live_streams_backup''] @ [basename p @ ''.bak_'' @ ts]"
  have bp: "?b \<noteq> p" using backup_neq[of p] by (simp add: parent_def)
  show "\<exists>e. snd ?w = Inl e"
    using nd by (auto simp: write_live_streams_def Let_def split: sum.splits)
  have keep: "fst ?w p = f p \<or> (f p = None \<and> fst ?w p = Some Dir)"
  proof (cases "mkdir_parents f (parent p @ [''live_streams_backup''])")
    case (Inl a)
    then show ?thesis by (simp add: write_live_streams_def)
  next
    case (Inr f1)
    then have k1: "f1 p = f p \<or> (f p = None \<and> f1 p = Some Dir)"
      using mkdirs_keeps by (simp add: mkdir_parents_def)
    show ?thesis
    proof (cases "write_text os f1 ?b (concat original_lines)")
      case (Inl a)
      with Inr k1 show ?thesis by (simp add: write_live_streams_def)
    next
      case f2: (Inr f2)
      from write_text_other[OF f2 bp[symmetric]] have "f2 p = f1 p" .
      with Inr f2 k1 nd show ?thesis by (simp add: write_live_streams_def)
    qed
  qed
  then show "content_at (fst ?w) p = content_at f p"
    by (auto simp: content_at_def node_at_def)
  from keep show "f p \<noteq> None \<Longrightarrow> fst ?w p = f p" by auto
qed

theorem delimiter_rejected_witness:
  "station_to_line 0 station_piped =
     Inl (ValueError (''Fields cannot contain the '' @ [CHR 0x27] @ ''|'' @ [CHR 0x27]
                      @ '' character.''))
   \<and> (\<exists>e. snd (write_live_streams Posix ''20240101_000000'' fs_one doc_path
                 [''stream_data: 1'' @ [LF], line_a] [1] [station_a, station_piped] ''in_place'')
          = Inl e)
   \<and> fst (write_live_streams Posix ''20240101_000000'' fs_one doc_path
            [''stream_data: 1'' @ [LF], line_a] [1] [station_a, station_piped] ''in_place'') doc_path
       = Some (File (''stream_data: 1'' @ [LF] @ line_a))"
proof -
  have h: "CHR ''|'' \<in> set (url station_piped) \<or> CHR ''|'' \<in> set (name station_piped)
             \<or> CHR ''|'' \<in> set (genre station_piped) \<or> CHR ''|'' \<in> set (language station_piped)"
    by code_simp
  have m: "station_piped \<in> set [station_a, station_piped]" by simp
  have e: "fs_one doc_path = Some (File (''stream_data: 1'' @ [LF] @ line_a))" by code_simp
  from delimiter_rejected[OF h, of 0 "[station_a, station_piped]" Posix "''20240101_000000''"
      fs_one doc_path "[''stream_data: 1'' @ [LF], line_a]" "[1]" "''in_place''"] m e
  show ?thesis by simp
qed

section \<open>The count line\<close>

lemma update_first_match:
  assumes "re_match STREAM_COUNT_RE (rstrip_nl l1) = Some m"
    and "\<forall>l\<in>set a. re_match STREAM_COUNT_RE (rstrip_nl l) = None"
  shows "update_stream_data_count_line (a @ l1 # b) n = (a @ count_line m l1 n # b, True)"
  using assms by (induction a) auto

text \<open>
  Claim C10. When the working sequence of a write has a first line that matches the
  count pattern, the written sequence differs from it in that line only: every line after
  it, matching or not, is the same byte for byte.
\<close>

theorem only_first_count_line:
  assumes "placed_lines original_lines idxs stations strategy = Inr (a @ l1 # rest)"
    and "re_match STREAM_COUNT_RE (rstrip_nl l1) = Some m"
    and "\<forall>l\<in>set a. re_match STREAM_COUNT_RE (rstrip_nl l) = None"
  shows "new_document_lines original_lines idxs stations strategy =
           Inr (a @ count_line m l1 (length stations) # rest)"
  using assms by (simp add: new_document_lines_def update_first_match)

theorem only_first_count_line_witness:
  "new_document_lines two_counts [1] [station_a, station_a] ''in_place'' =
     Inr ([] @ count_line ['' stream_data: 7'', '' stream_data: '', ''7'', []]
                 ('' stream_data: 7'' @ [LF]) (length [station_a, station_a])
          # [line_a, ''stream_data[1]: '' @ [dq] @ ''http://a|A|pop|en|128|0'' @ [dq, LF],
             ''stream_data: 9'' @ [LF]])
   \<and> re_match STREAM_COUNT_RE (rstrip_nl (''stream_data: 9'' @ [LF])) \<noteq> None"
proof -
  have p: "placed_lines two_counts [1] [station_a, station_a] ''in_place'' =
             Inr ([] @ ('' stream_data: 7'' @ [LF])
                  # [line_a, ''stream_data[1]: '' @ [dq] @ ''http://a|A|pop|en|128|0'' @ [dq, LF],
                     ''stream_data: 9'' @ [LF]])"
    by code_simp
  have m: "re_match STREAM_COUNT_RE (rstrip_nl ('' stream_data: 7'' @ [LF])) =
             Some ['' stream_data: 7'', '' stream_data: '', ''7'', []]"
    by code_simp
  have a: "\<forall>l\<in>set ([] :: string list). re_match STREAM_COUNT_RE (rstrip_nl l) = None" by simp
  have l: "re_match STREAM_COUNT_RE (rstrip_nl (''stream_data: 9'' @ [LF])) \<noteq> None" by code_simp
  from only_first_count_line[OF p m a] l show ?thesis by simp
qed

section \<open>The shape of a parsed document\<close>

lemma found_fst:
  "map fst (List.map_filter (\<lambda>(i, l). map_option (Pair i) (g l)) (enumerate n ls))
     = filter (\<lambda>i. g (ls ! (i - n)) \<noteq> None) [n..<n + length ls]"
proof (induction ls arbitrary: n)
  case Nil
  then show ?case by (simp add: List.map_filter_simps)
next
  case (Cons a ls)
  have shift: "filter (\<lambda>i. g ((a # ls) ! (i - n)) \<noteq> None) [Suc n..<Suc n + length ls]
        = filter (\<lambda>i. g (ls ! (i - Suc n)) \<noteq> None) [Suc n..<Suc n + length ls]"
  proof (rule filter_cong[OF refl])
    fix i assume "i \<in> set [Suc n..<Suc n + length ls]"
    then have "i - n = Suc (i - Suc n)" by auto
    then show "(g ((a # ls) ! (i - n)) \<noteq> None) = (g (ls ! (i - Suc n)) \<noteq> None)" by simp
  qed
  have "[n..<n + Suc (length ls)] = n # [Suc n..<n + Suc (length ls)]"
    by (rule upt_conv_Cons) simp
  then have upt: "[n..<n + length (a # ls)] = n # [Suc n..<Suc n + length ls]"
    by simp
  show ?case
    unfolding upt using Cons.IH[of "Suc n"] shift
    by (cases "g a") (simp_all add: List.map_filter_simps)
qed

lemma found_snd:
  "map snd (List.map_filter (\<lambda>(i, l). map_option (Pair i) (g l)) (enumerate n ls))
     = List.map_filter g ls"
  by (induction ls arbitrary: n) (auto simp: List.map_filter_simps split: option.splits)

lemma parse_shape:
  assumes "parse_live_streams f p = Inr (lines, idxs, stations)"
  shows "idxs = filter (\<lambda>i. station_of_line (lines ! i) \<noteq> None) [0..<length lines]"
    and "stations = List.map_filter station_of_line lines"
    and "\<exists>c. content_at f p = Some c \<and> lines = splitlines (universal_newlines c)"
    and "stations \<noteq> []"
proof -
  from assms have ex: "path_exists f p" by (auto simp: parse_live_streams_def split: if_splits)
  from assms ex obtain tx where rd: "read_text f p = Inr tx"
    by (cases "read_text f p") (auto simp: parse_live_streams_def)
  then obtain c where c: "content_at f p = Some c" and t: "tx = universal_newlines c"
    by (auto simp: read_text_def split: option.splits if_splits)
  from assms ex rd have l: "lines = splitlines tx"
    and i: "idxs = map fst (List.map_filter (\<lambda>(i, line). map_option (Pair i) (station_of_line line)) (enumerate 0 (splitlines tx)))"
    and s: "stations = map snd (List.map_filter (\<lambda>(i, line). map_option (Pair i) (station_of_line line)) (enumerate 0 (splitlines tx)))"
    and ne: "stations \<noteq> []"
    by (auto simp: parse_live_streams_def Let_def split: if_splits)
  show "idxs = filter (\<lambda>i. station_of_line (lines ! i) \<noteq> None) [0..<length lines]"
    using i l found_fst[of station_of_line 0 "splitlines tx"] by simp
  show "stations = List.map_filter station_of_line lines"
    using s l found_snd[of station_of_line 0 "splitlines tx"] by simp
  show "\<exists>c. content_at f p = Some c \<and> lines = splitlines (universal_newlines c)"
    using c t l by simp
  show "stations \<noteq> []" by (rule ne)
qed

lemma found_len:
  "length (filter (\<lambda>i. g (ls ! i) \<noteq> None) [0..<length ls]) = length (List.map_filter g ls)"
proof -
  have "length (map fst (List.map_filter (\<lambda>(i, l). map_option (Pair i) (g l)) (enumerate 0 ls)))
      = length (map snd (List.map_filter (\<lambda>(i, l). map_option (Pair i) (g l)) (enumerate 0 ls)))"
    by simp
  then show ?thesis
    unfolding found_fst found_snd by simp
qed

lemma map_filter_nth:
  "k < length (List.map_filter g ls) \<Longrightarrow>
     filter (\<lambda>i. g (ls ! i) \<noteq> None) [0..<length ls] ! k < length ls
     \<and> g (ls ! (filter (\<lambda>i. g (ls ! i) \<noteq> None) [0..<length ls] ! k)) = Some (List.map_filter g ls ! k)"
proof (induction ls arbitrary: k rule: rev_induct)
  case Nil
  then show ?case by (simp add: List.map_filter_simps)
next
  case (snoc x xs)
  define F where "F = filter (\<lambda>i. g (xs ! i) \<noteq> None) [0..<length xs]"
  define M where "M = List.map_filter g xs"
  have f1: "filter (\<lambda>i. g ((xs @ [x]) ! i) \<noteq> None) [0..<length xs] = F"
    unfolding F_def by (rule filter_cong) (auto simp: nth_append)
  have Fa: "filter (\<lambda>i. g ((xs @ [x]) ! i) \<noteq> None) [0..<length (xs @ [x])]
        = F @ (if g x = None then [] else [length xs])"
    using f1 by simp
  have len: "length F = length M"
    unfolding F_def M_def by (rule found_len)
  have mf: "List.map_filter g (xs @ [x]) = M @ (case g x of None \<Rightarrow> [] | Some y \<Rightarrow> [y])"
    unfolding M_def by (simp add: List.map_filter_def split: option.splits)
  show ?case
  proof (cases "k < length M")
    case True
    from snoc.IH[of k] True have a: "F ! k < length xs" and b: "g (xs ! (F ! k)) = Some (M ! k)"
      unfolding F_def M_def by auto
    from True len have c: "(F @ (if g x = None then [] else [length xs])) ! k = F ! k"
      by (simp add: nth_append)
    from True have d: "(M @ (case g x of None \<Rightarrow> [] | Some y \<Rightarrow> [y])) ! k = M ! k"
      by (simp add: nth_append)
    from a have e: "(xs @ [x]) ! (F ! k) = xs ! (F ! k)" by (simp add: nth_append)
    show ?thesis unfolding Fa mf c d e using a b by simp
  next
    case False
    from snoc.prems have "k < length (M @ (case g x of None \<Rightarrow> [] | Some y \<Rightarrow> [y]))"
      unfolding mf .
    with False obtain y where y: "g x = Some y" and k: "k = length M"
      by (cases "g x") auto
    from k len y have c: "(F @ (if g x = None then [] else [length xs])) ! k = length xs"
      by (simp add: nth_append)
    from k y have d: "(M @ (case g x of None \<Rightarrow> [] | Some y \<Rightarrow> [y])) ! k = y"
      by (simp add: nth_append)
    show ?thesis unfolding Fa mf c d using y by simp
  qed
qed

section \<open>The sign of the bitrate\<close>

lemma set_strip_by: "set (strip_by p s) \<subseteq> set s"
proof -
  have "set (rev (dropWhile p (rev (dropWhile p s)))) \<subseteq> set (dropWhile p s)"
    using set_dropWhileD[of _ p "rev (dropWhile p s)"] by auto
  also have "\<dots> \<subseteq> set s" using set_dropWhileD[of _ p s] by auto
  finally show ?thesis by (simp add: strip_by_def rstrip_by_def)
qed

lemma set_rstrip_nl: "set (rstrip_nl s) \<subseteq> set s"
  using set_dropWhileD[of _ "\<lambda>c. c = LF" "rev s"] by (auto simp: rstrip_nl_def rstrip_by_def)

lemma py_int_negative: "py_int x = Some b \<Longrightarrow> b < 0 \<Longrightarrow> CHR ''-'' \<in> set x"
proof -
  assume a: "py_int x = Some b" and n: "b < 0"
  let ?t = "strip_by int_space x"
  from a n have "?t \<noteq> [] \<and> hd ?t = CHR ''-''"
    by (auto simp: py_int_def Let_def split: if_splits)
  then have "CHR ''-'' \<in> set ?t" by (metis hd_in_set)
  with set_strip_by[of int_space x] show ?thesis by auto
qed

lemma split_on_subset: "q \<in> set (split_on d s) \<Longrightarrow> set q \<subseteq> set s"
proof (induction s arbitrary: q)
  case Nil
  then show ?case by simp
next
  case (Cons x xs)
  from Cons.IH have ih: "\<forall>r\<in>set (split_on d xs). set r \<subseteq> set xs" by blast
  show ?case
  proof (cases "x = d")
    case True
    with Cons.prems ih show ?thesis by auto
  next
    case False
    show ?thesis
    proof (cases "split_on d xs")
      case Nil
      with Cons.prems False show ?thesis by simp
    next
      case (Cons a list)
      with ih have "set a \<subseteq> set xs" and "\<forall>r\<in>set list. set r \<subseteq> set xs" by auto
      with Cons.prems False Cons show ?thesis by auto
    qed
  qed
qed

lemma rmatch_prefix: "rmatch ts s = Some segs \<Longrightarrow> prefix (concat segs) s"
proof (induction ts s arbitrary: segs rule: rmatch.induct)
  case (1 s)
  then show ?case by simp
next
  case (2 c ts s)
  then show ?case by (cases s) (auto split: if_splits)
next
  case (3 p ts s)
  then show ?case by (cases s) (auto split: if_splits)
next
  case (4 p ts s)
  show ?case
  proof (cases s)
    case Nil
    with 4 show ?thesis by auto
  next
    case (Cons x xs)
    show ?thesis
    proof (cases "if p x then rmatch (Star p # ts) xs else None")
      case None
      with 4 Cons show ?thesis by auto
    next
      case (Some r)
      show ?thesis
      proof (cases r)
        case Nil
        with 4 Cons Some show ?thesis by auto
      next
        case (Cons g gs)
        with Some have px: "p x" and rr: "rmatch (Star p # ts) xs = Some (g # gs)"
          by (auto split: if_splits)
        from "4.IH"(2)[OF \<open>s = x # xs\<close> px rr] have "prefix (concat (g # gs)) xs" .
        moreover from "4.prems" \<open>s = x # xs\<close> Some Cons have "segs = (x # g) # gs" by simp
        ultimately show ?thesis using \<open>s = x # xs\<close> by simp
      qed
    qed
  qed
next
  case (5 ts s)
  then show ?case by (auto split: if_splits)
qed

lemma group_subset: "set (re_group re segs k) \<subseteq> set (concat segs)"
  by (auto simp: re_group_def dest!: set_zip_rightD)

lemma station_of_line_sign:
  assumes "station_of_line l = Some s"
  shows "0 \<le> bitrate s \<or> CHR ''-'' \<in> set l"
proof (rule disjCI)
  assume neg: "\<not> CHR ''-'' \<in> set l"
  from assms obtain m where m: "re_match STREAM_RE (rstrip_nl l) = Some m"
    by (auto simp: station_of_line_def split: option.splits)
  let ?parts = "split_on CHR ''|'' (m ! 2)"
  from assms m have len: "length ?parts = 6"
    and b: "bitrate s = (case py_int (?parts ! 4) of Some b \<Rightarrow> b | None \<Rightarrow> 0)"
    by (auto simp: station_of_line_def Let_def split: if_splits)
  from m obtain segs where segs: "rmatch (map snd STREAM_RE) (rstrip_nl l) = Some segs"
    and mm: "m = map (re_group STREAM_RE segs) [0..<Suc (fold max (map fst STREAM_RE) 0)]"
    by (auto simp: re_match_def)
  have "fold max (map fst STREAM_RE) 0 = 2" by code_simp
  with mm have m2: "m ! 2 = re_group STREAM_RE segs 2"
    by (simp add: eval_nat_numeral del: upt_Suc)
  have "set (concat segs) \<subseteq> set (rstrip_nl l)"
    using rmatch_prefix[OF segs] by (rule set_mono_prefix)
  with group_subset[of STREAM_RE segs 2] set_rstrip_nl[of l]
  have "set (m ! 2) \<subseteq> set l"
    unfolding m2 by blast
  moreover have "set (?parts ! 4) \<subseteq> set (m ! 2)"
  proof (rule split_on_subset[of _ "CHR ''|''"])
    from len have "4 < length ?parts" by simp
    then show "?parts ! 4 \<in> set ?parts" by (rule nth_mem)
  qed
  ultimately have nd: "CHR ''-'' \<notin> set (?parts ! 4)" using neg by auto
  show "0 \<le> bitrate s"
  proof (cases "py_int (?parts ! 4)")
    case None
    with b show ?thesis by simp
  next
    case (Some v)
    with py_int_negative[OF Some] nd have "0 \<le> v" by force
    with b Some show ?thesis by simp
  qed
qed

lemma station_of_line_bitrate:
  assumes "station_of_line l = Some s"
  shows "\<exists>m. re_match STREAM_RE (rstrip_nl l) = Some m
           \<and> length (split_on CHR ''|'' (m ! 2)) = 6
           \<and> bitrate s = (case py_int (split_on CHR ''|'' (m ! 2) ! 4) of Some b \<Rightarrow> b | None \<Rightarrow> 0)"
  using assms by (auto simp: station_of_line_def Let_def split: option.splits if_splits)

text \<open>
  Claim C9, as amended. The bitrate of a parsed station is what \<open>int()\<close> makes of the
  bitrate field of its line, the fifth of the six fields between the quotes, or 0 where
  \<open>int()\<close> refuses that field; \<open>int()\<close> accepts a sign, so the bitrate can be negative. It
  is non-negative for every station whose bitrate field has no minus sign, whatever the
  other fields hold.
\<close>

theorem bitrate_sign:
  assumes "parse_live_streams f p = Inr (lines, idxs, stations)" and "k < length stations"
  shows "\<exists>m. re_match STREAM_RE (rstrip_nl (lines ! (idxs ! k))) = Some m
           \<and> length (split_on CHR ''|'' (m ! 2)) = 6
           \<and> bitrate (stations ! k)
               = (case py_int (split_on CHR ''|'' (m ! 2) ! 4) of Some b \<Rightarrow> b | None \<Rightarrow> 0)
           \<and> (CHR ''-'' \<notin> set (split_on CHR ''|'' (m ! 2) ! 4) \<longrightarrow> 0 \<le> bitrate (stations ! k))"
proof -
  note sh = parse_shape[OF assms(1)]
  from assms(2) have k: "k < length (List.map_filter station_of_line lines)"
    unfolding sh(2) .
  from map_filter_nth[OF k] have s: "station_of_line (lines ! (idxs ! k)) = Some (stations ! k)"
    unfolding sh(1)[symmetric] sh(2)[symmetric] by simp
  from station_of_line_bitrate[OF s] obtain m where
    m: "re_match STREAM_RE (rstrip_nl (lines ! (idxs ! k))) = Some m"
    and len: "length (split_on CHR ''|'' (m ! 2)) = 6"
    and b: "bitrate (stations ! k)
              = (case py_int (split_on CHR ''|'' (m ! 2) ! 4) of Some b \<Rightarrow> b | None \<Rightarrow> 0)"
    by blast
  let ?fld = "split_on CHR ''|'' (m ! 2) ! 4"
  have "0 \<le> bitrate (stations ! k)" if nd: "CHR ''-'' \<notin> set ?fld"
  proof (cases "py_int ?fld")
    case None
    with b show ?thesis by simp
  next
    case (Some v)
    with py_int_negative[OF Some] nd have "0 \<le> v" by force
    with b Some show ?thesis by simp
  qed
  with m len b show ?thesis by blast
qed

text \<open>
  Claim C9 as stated fails: the record \<^verbatim>\<open>stream_data[0]: "http://b|B|pop|en|-5|1"\<close> parses
  to a station with bitrate \<open>-5\<close>.
\<close>

theorem negative_bitrate_parsed:
  "parse_live_streams fs_negative doc_path = Inr ([doc_negative], [0], [station_negative])
   \<and> bitrate station_negative < 0"
  by code_simp

theorem bitrate_sign_witness:
  "parse_live_streams fs_hyphen doc_path = Inr ([doc_hyphen], [0], [station_hyphen])
   \<and> CHR ''-'' \<in> set ([doc_hyphen] ! ([0] ! 0))
   \<and> bitrate ([station_hyphen] ! 0) = 5
   \<and> 0 \<le> bitrate ([station_hyphen] ! 0)"
proof -
  have p: "parse_live_streams fs_hyphen doc_path = Inr ([doc_hyphen], [0], [station_hyphen])"
    by code_simp
  have k: "(0::nat) < length [station_hyphen]" by simp
  have h: "CHR ''-'' \<in> set ([doc_hyphen] ! ([0] ! 0))" by code_simp
  have r: "re_match STREAM_RE (rstrip_nl ([doc_hyphen] ! ([0] ! 0)))
             = Some [''stream_data[0]: '' @ [dq] @ ''http://my-radio|R|pop|en|5|1'' @ [dq], ''0'',
                     ''http://my-radio|R|pop|en|5|1'']"
    by code_simp
  have f: "split_on CHR ''|'' ''http://my-radio|R|pop|en|5|1'' ! 4 = ''5''" by code_simp
  from bitrate_sign[OF p k] obtain m where
    m: "re_match STREAM_RE (rstrip_nl ([doc_hyphen] ! ([0] ! 0))) = Some m"
    and b: "bitrate ([station_hyphen] ! 0)
               = (case py_int (split_on CHR ''|'' (m ! 2) ! 4) of Some b \<Rightarrow> b | None \<Rightarrow> 0)"
    and n: "CHR ''-'' \<notin> set (split_on CHR ''|'' (m ! 2) ! 4) \<longrightarrow> 0 \<le> bitrate ([station_hyphen] ! 0)"
    by blast
  from m r have m2: "m ! 2 = ''http://my-radio|R|pop|en|5|1''" by simp
  have i: "py_int ''5'' = Some 5" by code_simp
  from b have b5: "bitrate ([station_hyphen] ! 0) = 5" unfolding m2 f i by simp
  from n have "0 \<le> bitrate ([station_hyphen] ! 0)" unfolding m2 f by simp
  with p h b5 show ?thesis by (intro conjI)
qed

section \<open>Linking: the state of the destination\<close>

lemma symlink_named: "is_symlink f p \<Longrightarrow> p \<noteq> [] \<and> (\<exists>t. f p = Some (Link t))"
  by (auto simp: is_symlink_def node_at_def split: if_splits option.splits node.splits)

lemma exists_any_named: "p \<noteq> [] \<Longrightarrow> (path_exists f p \<or> is_symlink f p) = (f p \<noteq> None)"
proof (cases "f p")
  case None
  assume "p \<noteq> []"
  with None show ?thesis by (simp add: path_exists_def is_symlink_def node_at_def)
next
  case (Some n)
  assume "p \<noteq> []"
  with Some show ?thesis
    by (cases n) (simp_all add: path_exists_def is_symlink_def node_at_def)
qed

lemma renamed_neq: "dest \<noteq> [] \<Longrightarrow> sfx \<noteq> [] \<Longrightarrow> butlast dest @ [last dest @ sfx] \<noteq> dest"
proof
  assume d: "dest \<noteq> []" and s: "sfx \<noteq> []" and e: "butlast dest @ [last dest @ sfx] = dest"
  from e have "last (butlast dest @ [last dest @ sfx]) = last dest" by simp
  then have "last dest @ sfx = last dest" by simp
  with s show False by simp
qed

text \<open>
  Claim C7. \<open>link_live_streams_force_admin_symlink\<close> deals with what is at the destination
  by one call of \<open>_safe_backup_existing_dest\<close>, whose result it returns as the backup. A
  destination that does not exist, dangling links included, is left alone and there is no
  backup. A symbolic link is removed and a directory is removed with what is below it;
  nothing else changes and there is no backup. A regular file is renamed to
  \<open><name>.backup\<close> when that name is free and else to \<open><name>.backup_<timestamp>\<close>; the
  rename is all that happens, and with the target name free the file is found under it.
\<close>

theorem destination_states:
  "(\<not> path_exists_any f dest \<longrightarrow> safe_backup_existing_dest ts f dest = (f, Inr None))
   \<and> (is_symlink f dest \<longrightarrow> safe_backup_existing_dest ts f dest = (f(dest := None), Inr None))
   \<and> (dest \<noteq> [] \<and> f dest = Some Dir \<longrightarrow>
        safe_backup_existing_dest ts f dest = ((\<lambda>q. if prefix dest q then None else f q), Inr None))
   \<and> (\<forall>c. dest \<noteq> [] \<and> f dest = Some (File c) \<longrightarrow>
        (let backup = butlast dest @ [last dest @ ''.backup''];
             stamped = butlast dest @ [last dest @ ''.backup_'' @ ts]
         in if f backup = None
            then safe_backup_existing_dest ts f dest = (f(backup \<mapsto> File c, dest := None), Inr (Some backup))
            else safe_backup_existing_dest ts f dest =
                   (case rename f dest stamped of
                      Inl e \<Rightarrow> (f, Inl e)
                    | Inr f' \<Rightarrow> (f', Inr (Some stamped)))
                 \<and> (f stamped = None \<longrightarrow>
                      safe_backup_existing_dest ts f dest =
                        (f(stamped \<mapsto> File c, dest := None), Inr (Some stamped)))))"
proof (intro conjI allI impI)
  assume "\<not> path_exists_any f dest"
  then show "safe_backup_existing_dest ts f dest = (f, Inr None)"
    by (simp add: safe_backup_existing_dest_def)
next
  assume s: "is_symlink f dest"
  from symlink_named[OF s] obtain t where d: "dest \<noteq> []" and l: "f dest = Some (Link t)" by blast
  from d l have u: "unlink f dest = Inr (f(dest := None))"
    by (simp add: unlink_def node_at_def)
  from s u show "safe_backup_existing_dest ts f dest = (f(dest := None), Inr None)"
    by (simp add: safe_backup_existing_dest_def remove_path_any_def path_exists_any_def)
next
  assume a: "dest \<noteq> [] \<and> f dest = Some Dir"
  then have n: "node_at f dest = Some Dir" by (simp add: node_at_def)
  from n have "is_dir f dest" "\<not> is_symlink f dest" "path_exists f dest"
    by (simp_all add: is_dir_def is_symlink_def path_exists_def)
  with a n show "safe_backup_existing_dest ts f dest
                  = ((\<lambda>q. if prefix dest q then None else f q), Inr None)"
    by (simp add: safe_backup_existing_dest_def remove_path_any_def path_exists_any_def rmtree_def)
next
  fix c assume a: "dest \<noteq> [] \<and> f dest = Some (File c)"
  then have n: "node_at f dest = Some (File c)" by (simp add: node_at_def)
  from n have k: "\<not> is_dir f dest" "\<not> is_symlink f dest" "path_exists f dest"
    by (simp_all add: is_dir_def is_symlink_def path_exists_def)
  let ?b = "butlast dest @ [last dest @ ''.backup'']"
  let ?s = "butlast dest @ [last dest @ ''.backup_'' @ ts]"
  have taken: "(path_exists f ?b \<or> is_symlink f ?b) = (f ?b \<noteq> None)"
    by (rule exists_any_named) simp
  have bd: "?b \<noteq> dest" "?s \<noteq> dest"
    using a by (simp_all add: renamed_neq)
  have r1: "f ?b = None \<Longrightarrow> rename f dest ?b = Inr (f(?b \<mapsto> File c, dest := None))"
    using a n by (auto simp: rename_def node_at_def)
  have r2: "f ?s = None \<Longrightarrow> rename f dest ?s = Inr (f(?s \<mapsto> File c, dest := None))"
    using a n by (auto simp: rename_def node_at_def)
  have wn: "\<And>n. with_name dest n = Inr (butlast dest @ [n])"
    using a by (simp add: with_name_def)
  have bn: "basename dest = last dest" using a by (simp add: basename_def)
  have pe: "path_exists_any f dest" using k by (simp add: path_exists_any_def)
  show "let backup = ?b; stamped = ?s
         in if f backup = None
            then safe_backup_existing_dest ts f dest = (f(backup \<mapsto> File c, dest := None), Inr (Some backup))
            else safe_backup_existing_dest ts f dest =
                   (case rename f dest stamped of
                      Inl e \<Rightarrow> (f, Inl e)
                    | Inr f' \<Rightarrow> (f', Inr (Some stamped)))
                 \<and> (f stamped = None \<longrightarrow>
                      safe_backup_existing_dest ts f dest =
                        (f(stamped \<mapsto> File c, dest := None), Inr (Some stamped)))"
  proof (cases "f ?b = None")
    case True
    have "safe_backup_existing_dest ts f dest = (f(?b \<mapsto> File c, dest := None), Inr (Some ?b))"
      unfolding safe_backup_existing_dest_def using pe k taken True r1[OF True]
      by (simp only: wn bn simp_thms if_True if_False sum.case)
    with True show ?thesis unfolding Let_def by (simp only: if_True refl)
  next
    case False
    have u: "safe_backup_existing_dest ts f dest =
               (case rename f dest ?s of Inl e \<Rightarrow> (f, Inl e) | Inr f' \<Rightarrow> (f', Inr (Some ?s)))"
      unfolding safe_backup_existing_dest_def using pe k taken False
      by (simp only: wn bn simp_thms if_True if_False sum.case)
    have "f ?s = None \<longrightarrow>
            safe_backup_existing_dest ts f dest = (f(?s \<mapsto> File c, dest := None), Inr (Some ?s))"
    proof
      assume n: "f ?s = None"
      show "safe_backup_existing_dest ts f dest = (f(?s \<mapsto> File c, dest := None), Inr (Some ?s))"
        unfolding u r2[OF n] by (simp only: sum.case)
    qed
    with False show ?thesis unfolding Let_def using u by (simp only: if_False simp_thms)
  qed
qed

theorem destination_states_witness:
  "safe_backup_existing_dest ''20240101_000000'' Map.empty link_dest = (Map.empty, Inr None)
   \<and> safe_backup_existing_dest ''20240101_000000'' fs_dest_link link_dest
       = (fs_dest_link(link_dest := None), Inr None)
   \<and> safe_backup_existing_dest ''20240101_000000'' fs_dest_dir link_dest
       = ((\<lambda>q. if prefix link_dest q then None else fs_dest_dir q), Inr None)
   \<and> safe_backup_existing_dest ''20240101_000000'' fs_dest_file link_dest
       = (fs_dest_file(butlast link_dest @ [last link_dest @ ''.backup''] \<mapsto> File ''old'',
                       link_dest := None),
          Inr (Some (butlast link_dest @ [last link_dest @ ''.backup''])))
   \<and> safe_backup_existing_dest ''20240101_000000'' fs_dest_taken link_dest
       = (fs_dest_taken(butlast link_dest @ [last link_dest @ ''.backup_'' @ ''20240101_000000'']
                          \<mapsto> File ''old'',
                        link_dest := None),
          Inr (Some (butlast link_dest @ [last link_dest @ ''.backup_'' @ ''20240101_000000''])))"
proof (intro conjI)
  have "\<not> path_exists_any Map.empty link_dest" by code_simp
  with destination_states[of Map.empty link_dest "''20240101_000000''"]
  show "safe_backup_existing_dest ''20240101_000000'' Map.empty link_dest = (Map.empty, Inr None)"
    by blast
next
  have "is_symlink fs_dest_link link_dest" by code_simp
  with destination_states[of fs_dest_link link_dest "''20240101_000000''"]
  show "safe_backup_existing_dest ''20240101_000000'' fs_dest_link link_dest
          = (fs_dest_link(link_dest := None), Inr None)"
    by blast
next
  have "link_dest \<noteq> [] \<and> fs_dest_dir link_dest = Some Dir" by code_simp
  with destination_states[of fs_dest_dir link_dest "''20240101_000000''"]
  show "safe_backup_existing_dest ''20240101_000000'' fs_dest_dir link_dest
          = ((\<lambda>q. if prefix link_dest q then None else fs_dest_dir q), Inr None)"
    by blast
next
  have h: "link_dest \<noteq> [] \<and> fs_dest_file link_dest = Some (File ''old'')" by code_simp
  have n: "fs_dest_file (butlast link_dest @ [last link_dest @ ''.backup'']) = None" by code_simp
  from destination_states[of fs_dest_file link_dest "''20240101_000000''",
      THEN conjunct2, THEN conjunct2, THEN conjunct2, rule_format, OF h]
  show "safe_backup_existing_dest ''20240101_000000'' fs_dest_file link_dest
       = (fs_dest_file(butlast link_dest @ [last link_dest @ ''.backup''] \<mapsto> File ''old'',
                       link_dest := None),
          Inr (Some (butlast link_dest @ [last link_dest @ ''.backup''])))"
    unfolding Let_def if_P[OF n] .
next
  have h: "link_dest \<noteq> [] \<and> fs_dest_taken link_dest = Some (File ''old'')" by code_simp
  have n: "\<not> fs_dest_taken (butlast link_dest @ [last link_dest @ ''.backup'']) = None"
    by code_simp
  have m: "fs_dest_taken (butlast link_dest @ [last link_dest @ ''.backup_'' @ ''20240101_000000''])
             = None"
    by code_simp
  from destination_states[of fs_dest_taken link_dest "''20240101_000000''",
      THEN conjunct2, THEN conjunct2, THEN conjunct2, rule_format, OF h]
  have "safe_backup_existing_dest ''20240101_000000'' fs_dest_taken link_dest =
          (case rename fs_dest_taken link_dest
                  (butlast link_dest @ [last link_dest @ ''.backup_'' @ ''20240101_000000'']) of
             Inl e \<Rightarrow> (fs_dest_taken, Inl e)
           | Inr f' \<Rightarrow> (f', Inr (Some (butlast link_dest @ [last link_dest @ ''.backup_'' @ ''20240101_000000'']))))
        \<and> (fs_dest_taken (butlast link_dest @ [last link_dest @ ''.backup_'' @ ''20240101_000000'']) = None \<longrightarrow>
             safe_backup_existing_dest ''20240101_000000'' fs_dest_taken link_dest
               = (fs_dest_taken(butlast link_dest @ [last link_dest @ ''.backup_'' @ ''20240101_000000'']
                                  \<mapsto> File ''old'', link_dest := None),
                  Inr (Some (butlast link_dest @ [last link_dest @ ''.backup_'' @ ''20240101_000000'']))))"
    unfolding Let_def if_not_P[OF n] .
  then show "safe_backup_existing_dest ''20240101_000000'' fs_dest_taken link_dest
       = (fs_dest_taken(butlast link_dest @ [last link_dest @ ''.backup_'' @ ''20240101_000000'']
                          \<mapsto> File ''old'',
                        link_dest := None),
          Inr (Some (butlast link_dest @ [last link_dest @ ''.backup_'' @ ''20240101_000000''])))"
    using m by blast
qed

section \<open>Linking: the script and the log of the elevated step\<close>

lemma cleanup_result:
  assumes "cmd \<noteq> []"
  shows "(case (if node_at f2 cmd = None then Inr f2 else unlink f2 cmd) of
            Inr g \<Rightarrow> g
          | Inl _ \<Rightarrow> (if path_exists f2 cmd
                      then (case unlink f2 cmd of Inr g \<Rightarrow> g | Inl _ \<Rightarrow> f2)
                      else f2))
         = (if f2 cmd = Some Dir then f2 else f2(cmd := None))"
proof (cases "f2 cmd")
  case None
  with assms show ?thesis by (simp add: node_at_def fun_upd_idem)
next
  case (Some n)
  with assms show ?thesis
    by (cases n) (simp_all add: node_at_def unlink_def path_exists_def)
qed

text \<open>
  Claim C8, as amended. When the script can be written and the elevated run returns,
  \<open>_mklink_symlink_admin\<close> returns a result, whether the link was made or not; the script is
  gone afterwards, unless it cannot be unlinked (a directory in its place), which is
  swallowed; and the log file is kept: it is after the call what the run left.
\<close>

theorem script_removed_log_kept:
  assumes "is_dir f temp_dir"
    and "\<not> is_dir f (temp_dir @ [''radio_link_'' @ ts @ ''.cmd''])"
    and "\<forall>ps g. \<exists>g' r. run ps g = Inr (g', r)"
  shows "\<exists>ps f1 f2 r ok out.
           run ps f1 = Inr (f2, r)
         \<and> mklink_symlink_admin os run render temp_dir ts f dest src
             = ((if f2 (temp_dir @ [''radio_link_'' @ ts @ ''.cmd'']) = Some Dir then f2
                 else f2(temp_dir @ [''radio_link_'' @ ts @ ''.cmd''] := None)),
                Inr (ok, out))
         \<and> fst (mklink_symlink_admin os run render temp_dir ts f dest src)
               (temp_dir @ [''radio_link_'' @ ts @ ''.log''])
             = f2 (temp_dir @ [''radio_link_'' @ ts @ ''.log''])"
proof -
  let ?cmd = "temp_dir @ [''radio_link_'' @ ts @ ''.cmd'']"
  let ?log = "temp_dir @ [''radio_link_'' @ ts @ ''.log'']"
  let ?contents = "''@echo off'' @ [LF] @
                   (''mklink '' @ [dq] @ render dest @ [dq] @ '' '' @ [dq] @ render src @ [dq])
                   @ '' > '' @ [dq] @ render ?log @ [dq] @ '' 2>&1'' @ [LF] @
                   ''exit /b %errorlevel%'' @ [LF]"
  let ?ps = "''Start-Process -FilePath '' @ [dq] @ render ?cmd @ [dq] @
             '' -Verb RunAs -WindowStyle Hidden -Wait''"
  from assms(1,2) obtain f1 where w: "write_text os f ?cmd ?contents = Inr f1"
    by (simp add: write_text_def parent_def Let_def)
  from assms(3) obtain f2 r where run: "run ?ps f1 = Inr (f2, r)" by blast
  let ?f3 = "if f2 ?cmd = Some Dir then f2 else f2(?cmd := None)"
  have c: "(case (if node_at f2 ?cmd = None then Inr f2 else unlink f2 ?cmd) of
            Inr g \<Rightarrow> g
          | Inl _ \<Rightarrow> (if path_exists f2 ?cmd
                      then (case unlink f2 ?cmd of Inr g \<Rightarrow> g | Inl _ \<Rightarrow> f2)
                      else f2)) = ?f3"
    by (rule cleanup_result) simp
  have "\<exists>ok out. mklink_symlink_admin os run render temp_dir ts f dest src = (?f3, Inr (ok, out))"
    unfolding mklink_symlink_admin_def Let_def w run c sum.case prod.case
    by (cases "path_exists ?f3 dest \<or> is_symlink ?f3 dest") (simp_all only: if_True if_False, blast+)
  then obtain ok out where
    res: "mklink_symlink_admin os run render temp_dir ts f dest src = (?f3, Inr (ok, out))"
    by blast
  have "?log \<noteq> ?cmd" by simp
  then have "fst (mklink_symlink_admin os run render temp_dir ts f dest src) ?log = f2 ?log"
    unfolding res by (simp del: append_assoc)
  with run res show ?thesis by blast
qed

text \<open>
  Claim C8 as stated fails for the log file: after a run that wrote \<open>Access is denied.\<close> to
  the log and made no link, the call returns \<open>(False, "Access is denied.")\<close> and the log
  file is still in the temp directory.
\<close>

theorem log_file_kept:
  "fst (mklink_symlink_admin Windows run_denied render_win [''Temp''] ''20240101_000000_000000''
          fs_temp link_dest doc_path) [''Temp'', ''radio_link_20240101_000000_000000.log'']
     = Some (File ''Access is denied.'')
   \<and> snd (mklink_symlink_admin Windows run_denied render_win [''Temp''] ''20240101_000000_000000''
          fs_temp link_dest doc_path) = Inr (False, ''Access is denied.'')"
  by code_simp

theorem script_removed_log_kept_witness:
  "\<exists>ps f1 f2 r ok out.
     run_denied ps f1 = Inr (f2, r)
     \<and> mklink_symlink_admin Windows run_denied render_win [''Temp''] ''20240101_000000_000000''
          fs_temp link_dest doc_path
        = ((if f2 ([''Temp''] @ [''radio_link_'' @ ''20240101_000000_000000'' @ ''.cmd'']) = Some Dir
            then f2
            else f2([''Temp''] @ [''radio_link_'' @ ''20240101_000000_000000'' @ ''.cmd''] := None)),
           Inr (ok, out))
     \<and> fst (mklink_symlink_admin Windows run_denied render_win [''Temp''] ''20240101_000000_000000''
          fs_temp link_dest doc_path)
          ([''Temp''] @ [''radio_link_'' @ ''20240101_000000_000000'' @ ''.log''])
        = f2 ([''Temp''] @ [''radio_link_'' @ ''20240101_000000_000000'' @ ''.log''])"
proof -
  have a: "is_dir fs_temp [''Temp'']" by code_simp
  have b: "\<not> is_dir fs_temp ([''Temp''] @ [''radio_link_'' @ ''20240101_000000_000000'' @ ''.cmd''])"
    by code_simp
  have c: "\<forall>ps g. \<exists>g' r. run_denied ps g = Inr (g', r)"
    by (simp add: run_denied_def)
  show ?thesis by (rule script_removed_log_kept[OF a b c])
qed

section \<open>Writing: the backup\<close>

lemma concat_splitlines: "concat (splitlines t) = t"
proof (induction t rule: splitlines.induct)
  case 1
  then show ?case by simp
next
  case (2 x xs)
  show ?case
  proof (cases "x = CR")
    case True
    with 2 show ?thesis by (cases xs) auto
  next
    case False
    show ?thesis
    proof (cases "is_linebreak x")
      case True
      with False 2 show ?thesis by simp
    next
      case nb: False
      with False 2 show ?thesis by (cases "splitlines xs") auto
    qed
  qed
qed

lemma write_text_content:
  "write_text os f p t = Inr f' \<Longrightarrow> content_at f' p = Some (translate_newlines os t)"
  by (auto simp: write_text_def Let_def content_at_def node_at_def is_dir_def is_symlink_def
           split: if_splits)

lemma write_steps:
  assumes "write_live_streams os ts f p lines idxs stations strategy = (f', Inr b)"
  shows "\<exists>f1 f2 out.
           mkdir_parents f (parent p @ [''live_streams_backup'']) = Inr f1
         \<and> write_text os f1 (backup_path p ts) (concat lines) = Inr f2
         \<and> new_document_lines lines idxs stations strategy = Inr out
         \<and> write_text os f2 p (concat out) = Inr f'
         \<and> b = backup_path p ts"
  using assms
  by (auto simp: write_live_streams_def backup_path_def Let_def split: sum.splits)

lemma universal_no_CR: "CR \<notin> set (universal_newlines c)"
  by (induction c rule: universal_newlines.induct) (auto split: list.splits)

lemma universal_id: "CR \<notin> set t \<Longrightarrow> universal_newlines t = t"
  by (induction t) auto

lemma universal_translate:
  "CR \<notin> set t \<Longrightarrow> universal_newlines (translate_newlines os t) = t"
proof (induction t)
  case Nil
  then show ?case by (simp add: translate_newlines_def)
next
  case (Cons x xs)
  then have ih: "universal_newlines (translate_newlines os xs) = xs" and x: "x \<noteq> CR" by auto
  show ?case
  proof (cases os)
    case Windows
    with ih x show ?thesis by (simp add: translate_newlines_def)
  next
    case Posix
    with ih x show ?thesis by (simp add: translate_newlines_def)
  qed
qed

text \<open>
  Claim C4, as amended. A successful write returns the path
  \<open><directory-of-file>/live_streams_backup/<filename>.bak_<timestamp>\<close>, and the file there
  holds the concatenation of the original lines the write was given, written in text
  mode. When these are the lines \<open>parse_live_streams\<close> read from the target, reading the
  backup as text gives the text that was read from the target before the write. The
  backup is a new text-mode rendering of that text, not a copy of the target's bytes.
\<close>

theorem backup_written:
  assumes "write_live_streams os ts f p lines idxs stations strategy = (f', Inr b)"
  shows "b = parent p @ [''live_streams_backup'', basename p @ ''.bak_'' @ ts]
       \<and> content_at f' b = Some (translate_newlines os (concat lines))
       \<and> (\<forall>old. parse_live_streams f p = Inr (lines, idxs, old)
               \<longrightarrow> read_text f' b = read_text f p)"
proof -
  from write_steps[OF assms] obtain f1 f2 out where
    w1: "write_text os f1 (backup_path p ts) (concat lines) = Inr f2"
    and w2: "write_text os f2 p (concat out) = Inr f'"
    and b: "b = backup_path p ts"
    by blast
  have ne: "backup_path p ts \<noteq> p"
    using backup_neq[of p] by (simp add: backup_path_def parent_def)
  from write_text_other[OF w2 ne] have same: "f' (backup_path p ts) = f2 (backup_path p ts)" .
  have "content_at f2 (backup_path p ts) = Some (translate_newlines os (concat lines))"
    using w1 by (rule write_text_content)
  moreover have "backup_path p ts \<noteq> []" by (simp add: backup_path_def)
  ultimately have c: "content_at f' b = Some (translate_newlines os (concat lines))"
    unfolding b using same by (simp add: content_at_def node_at_def)
  have "\<forall>old. parse_live_streams f p = Inr (lines, idxs, old) \<longrightarrow> read_text f' b = read_text f p"
  proof (intro allI impI)
    fix old
    assume p: "parse_live_streams f p = Inr (lines, idxs, old)"
    from parse_shape(3)[OF p] obtain c' where c': "content_at f p = Some c'"
      and l: "lines = splitlines (universal_newlines c')" by auto
    from l have j: "concat lines = universal_newlines c'" by (simp add: concat_splitlines)
    have "CR \<notin> set (concat lines)" unfolding j by (rule universal_no_CR)
    then have "universal_newlines (translate_newlines os (concat lines)) = concat lines"
      by (rule universal_translate)
    with c c' j show "read_text f' b = read_text f p" by (simp add: read_text_def)
  qed
  with b c show ?thesis by (simp add: backup_path_def)
qed

text \<open>
  Claim C4 as stated fails. For the file \<open>docs/radio.sii\<close> with \<open>\r\n\<close> line ends, parsed
  and written back on a platform whose line separator is \<open>\n\<close>, the backup is
  \<open>docs/live_streams_backup/radio.sii.bak_20240101_000000\<close>, nothing is created under
  \<open>docs/radio.sii_backup\<close>, and the backup's content differs from the target's.
\<close>

theorem backup_elsewhere_and_translated:
  "parse_live_streams fs_crlf radio_path = Inr ([''SiiNunit'' @ [LF], line_a], [1], [station_a])
   \<and> snd (write_live_streams Posix ''20240101_000000'' fs_crlf radio_path
             [''SiiNunit'' @ [LF], line_a] [1] [station_a] ''in_place'')
       = Inr [''docs'', ''live_streams_backup'', ''radio.sii.bak_20240101_000000'']
   \<and> fst (write_live_streams Posix ''20240101_000000'' fs_crlf radio_path
             [''SiiNunit'' @ [LF], line_a] [1] [station_a] ''in_place'')
         [''docs'', ''radio.sii_backup'', ''radio.sii.bak_20240101_000000''] = None
   \<and> content_at (fst (write_live_streams Posix ''20240101_000000'' fs_crlf radio_path
             [''SiiNunit'' @ [LF], line_a] [1] [station_a] ''in_place''))
         [''docs'', ''live_streams_backup'', ''radio.sii.bak_20240101_000000'']
       \<noteq> content_at fs_crlf radio_path"
  by code_simp

theorem backup_written_witness:
  "[''docs'', ''live_streams_backup'', ''radio.sii.bak_20240101_000000'']
      = parent radio_path @ [''live_streams_backup'', basename radio_path @ ''.bak_'' @ ''20240101_000000'']
   \<and> content_at (fst (write_live_streams Windows ''20240101_000000'' fs_crlf radio_path
                        [''SiiNunit'' @ [LF], line_a] [1] [station_a] ''in_place''))
         [''docs'', ''live_streams_backup'', ''radio.sii.bak_20240101_000000'']
       = Some (translate_newlines Windows (concat [''SiiNunit'' @ [LF], line_a]))
   \<and> read_text (fst (write_live_streams Windows ''20240101_000000'' fs_crlf radio_path
                        [''SiiNunit'' @ [LF], line_a] [1] [station_a] ''in_place''))
         [''docs'', ''live_streams_backup'', ''radio.sii.bak_20240101_000000'']
       = read_text fs_crlf radio_path
   \<and> read_text fs_crlf radio_path = Inr (''SiiNunit'' @ [LF] @ line_a)"
proof -
  define W where "W = write_live_streams Windows ''20240101_000000'' fs_crlf radio_path
                        [''SiiNunit'' @ [LF], line_a] [1] [station_a] ''in_place''"
  have s: "snd W = Inr [''docs'', ''live_streams_backup'', ''radio.sii.bak_20240101_000000'']"
    unfolding W_def by code_simp
  have "W = (fst W, snd W)" by simp
  then have e: "write_live_streams Windows ''20240101_000000'' fs_crlf radio_path
                        [''SiiNunit'' @ [LF], line_a] [1] [station_a] ''in_place''
       = (fst W, Inr [''docs'', ''live_streams_backup'', ''radio.sii.bak_20240101_000000''])"
    unfolding s unfolding W_def .
  have p: "parse_live_streams fs_crlf radio_path
             = Inr ([''SiiNunit'' @ [LF], line_a], [1], [station_a])"
    by code_simp
  have t: "read_text fs_crlf radio_path = Inr (''SiiNunit'' @ [LF] @ line_a)" by code_simp
  note r = backup_written[OF e]
  from r[THEN conjunct2, THEN conjunct2, rule_format, OF p]
  have "read_text (fst W) [''docs'', ''live_streams_backup'', ''radio.sii.bak_20240101_000000'']
          = read_text fs_crlf radio_path" .
  with r[THEN conjunct1] r[THEN conjunct2, THEN conjunct1] t show ?thesis
    unfolding W_def by (intro conjI)
qed

section \<open>Matching: how the starred classes of the two patterns behave\<close>

lemma star_greedy:
  assumes "\<forall>x\<in>set u. p x" and "v = [] \<or> \<not> p (hd v)" and "rmatch ts v = Some r"
  shows "rmatch (Star p # ts) (u @ v) = Some (u # r)"
  using assms
proof (induction u)
  case Nil
  then show ?case by (cases v) auto
next
  case (Cons x u)
  then have "rmatch (Star p # ts) (u @ v) = Some (u # r)" by simp
  with Cons.prems show ?case by simp
qed

lemma star_then_lit:
  assumes "\<forall>x\<in>set u. p x" and "\<not> p c" and "v = [] \<or> \<not> p (hd v)"
  shows "rmatch (Star p # Lit c # ts) (u @ v) = map_option (Cons u) (rmatch (Lit c # ts) v)"
  using assms
proof (induction u)
  case Nil
  then show ?case by (cases v) auto
next
  case (Cons x u)
  then have ih: "rmatch (Star p # Lit c # ts) (u @ v) = map_option (Cons u) (rmatch (Lit c # ts) v)"
    by simp
  from Cons.prems have px: "p x" and xc: "x \<noteq> c" by auto
  show ?case
  proof (cases "rmatch (Lit c # ts) v")
    case None
    with ih px xc show ?thesis by simp
  next
    case (Some r)
    with ih px show ?thesis by simp
  qed
qed

lemma star_then_last_lit:
  assumes "\<forall>x\<in>set u. p x" and "rmatch ts [] = Some r"
  shows "rmatch (Star p # Lit c # ts) (u @ [c]) = Some (u # [c] # r)"
  using assms
proof (induction u)
  case Nil
  then show ?case by simp
next
  case (Cons x u)
  then have "rmatch (Star p # Lit c # ts) (u @ [c]) = Some (u # [c] # r)" by simp
  with Cons.prems show ?case by simp
qed






lemma rmatch_lits:
  "rmatch (map Lit w @ ts) (w @ v) = map_option ((@) (map (\<lambda>c. [c]) w)) (rmatch ts v)"
proof (induction w)
  case Nil
  show ?case by (cases "rmatch ts v") simp_all
next
  case (Cons c w)
  then show ?case by (cases "rmatch ts v") simp_all
qed

section \<open>The lines the count pattern matches\<close>

lemma digit_not_space: "is_digit c \<Longrightarrow> \<not> is_space c"
  by (auto simp: is_digit_def is_space_def)

lemma rstrip_nl_append_LF: "rstrip_nl (s @ [LF]) = rstrip_nl s"
  by (simp add: rstrip_nl_def rstrip_by_def)

lemma rstrip_nl_id: "s = [] \<or> last s \<noteq> LF \<Longrightarrow> rstrip_nl s = s"
  by (cases s rule: rev_cases) (auto simp: rstrip_nl_def rstrip_by_def)


lemma count_groups:
  "map (re_group STREAM_COUNT_RE
         [w1, [a1], [a2], [a3], [a4], [a5], [a6], [a7], [a8], [a9], [a10], [a11], w2, [b], w3,
          [d], ds, w4, e])
       [0..<Suc (fold max (map fst STREAM_COUNT_RE) 0)]
   = [w1 @ [a1, a2, a3, a4, a5, a6, a7, a8, a9, a10, a11] @ w2 @ [b] @ w3 @ [d] @ ds @ w4 @ e,
      w1 @ [a1, a2, a3, a4, a5, a6, a7, a8, a9, a10, a11] @ w2 @ [b] @ w3,
      d # ds, w4]"
  by (simp add: STREAM_COUNT_RE_def re_group_def upt_rec)

lemma count_match_form:
  assumes sp: "\<forall>c\<in>set (w1 @ w2 @ w3 @ w4). is_space c"
    and dg: "ds \<noteq> []" "\<forall>c\<in>set ds. is_digit c"
  shows "re_match STREAM_COUNT_RE (w1 @ ''stream_data'' @ w2 @ '':'' @ w3 @ ds @ w4)
           = Some [w1 @ ''stream_data'' @ w2 @ '':'' @ w3 @ ds @ w4,
                   w1 @ ''stream_data'' @ w2 @ '':'' @ w3, ds, w4]"
proof -
  from dg obtain d ds' where ds: "ds = d # ds'" by (cases ds) auto
  with dg have d: "is_digit d" and ds': "\<forall>c\<in>set ds'. is_digit c" by auto
  from sp have s1: "\<forall>c\<in>set w1. is_space c" and s2: "\<forall>c\<in>set w2. is_space c"
    and s3: "\<forall>c\<in>set w3. is_space c" and s4: "\<forall>c\<in>set w4. is_space c" by auto
  have t5: "rmatch [Star is_space, Eos] w4 = Some [w4, []]"
    using star_greedy[OF s4, of "[]" "[Eos]" "[[]]"] by simp
  have "w4 = [] \<or> \<not> is_digit (hd w4)"
    using s4 digit_not_space by (cases w4) auto
  from star_greedy[OF ds' this t5]
  have t4: "rmatch [Star is_digit, Star is_space, Eos] (ds' @ w4) = Some [ds', w4, []]" .
  then have t3: "rmatch [Cls is_digit, Star is_digit, Star is_space, Eos] (d # ds' @ w4)
                   = Some [[d], ds', w4, []]"
    using d by simp
  have "d # ds' @ w4 = [] \<or> \<not> is_space (hd (d # ds' @ w4))"
    using d digit_not_space by simp
  from star_greedy[OF s3 this t3]
  have t2: "rmatch [Star is_space, Cls is_digit, Star is_digit, Star is_space, Eos]
              (w3 @ d # ds' @ w4) = Some [w3, [d], ds', w4, []]" .
  have c1: "\<not> is_space CHR '':''" and c2: "\<not> is_space CHR ''s''" by (simp_all add: is_space_def)
  have t1: "rmatch [Star is_space, Lit CHR '':'', Star is_space, Cls is_digit, Star is_digit,
                    Star is_space, Eos] (w2 @ CHR '':'' # w3 @ d # ds' @ w4)
              = Some [w2, '':'', w3, [d], ds', w4, []]"
    using star_then_lit[OF s2 c1, of "CHR '':'' # w3 @ d # ds' @ w4"] t2 c1 by simp
  have t0: "rmatch (map snd STREAM_COUNT_RE)
              (w1 @ ''stream_data'' @ w2 @ CHR '':'' # w3 @ d # ds' @ w4)
              = Some [w1, ''s'', ''t'', ''r'', ''e'', ''a'', ''m'', ''_'', ''d'', ''a'', ''t'', ''a'',
                      w2, '':'', w3, [d], ds', w4, []]"
    unfolding STREAM_COUNT_RE_def
    using star_then_lit[OF s1 c2, of "''stream_data'' @ w2 @ CHR '':'' # w3 @ d # ds' @ w4"] t1 c2
    by simp
  have eq: "w1 @ ''stream_data'' @ w2 @ '':'' @ w3 @ ds @ w4
              = w1 @ ''stream_data'' @ w2 @ CHR '':'' # w3 @ d # ds' @ w4"
    using ds by simp
  have g: "re_match STREAM_COUNT_RE (w1 @ ''stream_data'' @ w2 @ CHR '':'' # w3 @ d # ds' @ w4)
        = Some [w1 @ ''stream_data'' @ w2 @ '':'' @ w3 @ [d] @ ds' @ w4 @ [],
                w1 @ ''stream_data'' @ w2 @ '':'' @ w3, d # ds', w4]"
    unfolding re_match_def t0 option.map count_groups ..
  show ?thesis
    unfolding eq g using ds by simp
qed


section \<open>Writing: the count line is brought up to date\<close>

lemma update_no_match:
  "\<forall>l\<in>set ls. re_match STREAM_COUNT_RE (rstrip_nl l) = None \<Longrightarrow>
     update_stream_data_count_line ls n = (ls, False)"
  by (induction ls) auto

lemma count_form_line:
  assumes sp: "\<forall>c\<in>set (w1 @ w2 @ w3 @ w4). is_space c"
    and dg: "ds \<noteq> []" "\<forall>c\<in>set ds. is_digit c"
    and w4: "w4 = [] \<or> last w4 \<noteq> LF" and nl: "nl = [] \<or> nl = [LF]"
  shows "re_match STREAM_COUNT_RE (rstrip_nl (w1 @ ''stream_data'' @ w2 @ '':'' @ w3 @ ds @ w4 @ nl))
           = Some [w1 @ ''stream_data'' @ w2 @ '':'' @ w3 @ ds @ w4,
                   w1 @ ''stream_data'' @ w2 @ '':'' @ w3, ds, w4]"
    and "endswith_nl (w1 @ ''stream_data'' @ w2 @ '':'' @ w3 @ ds @ w4 @ nl) = (nl = [LF])"
proof -
  let ?X = "w1 @ ''stream_data'' @ w2 @ '':'' @ w3 @ ds @ w4"
  from dg have "is_digit (last ds)" by simp
  then have "last ds \<noteq> LF" by (auto simp: is_digit_def)
  with w4 dg(1) have lx: "?X \<noteq> [] \<and> last ?X \<noteq> LF" by (cases "w4 = []") simp_all
  then have r: "rstrip_nl ?X = ?X" by (intro rstrip_nl_id) simp
  have "rstrip_nl (?X @ nl) = ?X"
    using nl r rstrip_nl_append_LF[of ?X] by auto
  then show "re_match STREAM_COUNT_RE (rstrip_nl (w1 @ ''stream_data'' @ w2 @ '':'' @ w3 @ ds @ w4 @ nl))
           = Some [?X, w1 @ ''stream_data'' @ w2 @ '':'' @ w3, ds, w4]"
    using count_match_form[OF sp dg] by simp
  have "endswith_nl (?X @ nl) = (nl = [LF])"
    using nl lx by (auto simp: endswith_nl_def)
  then show "endswith_nl (w1 @ ''stream_data'' @ w2 @ '':'' @ w3 @ ds @ w4 @ nl) = (nl = [LF])"
    by simp
qed

text \<open>
  Claim C2. A successful write stores the sequence \<open>new_document_lines\<close> gives. Let the
  first line of the working sequence that matches the count pattern have the form
  \<open><prefix>stream_data: <integer><suffix>\<close>: white space \<open>w1\<close>, \<open>stream_data\<close>, white space
  \<open>w2\<close>, a colon, white space \<open>w3\<close>, digits \<open>ds\<close>, white space \<open>w4\<close> and the terminator
  \<open>nl\<close> (a newline or nothing). In the written sequence that line has the number of
  stations in place of \<open>ds\<close> and is otherwise the same, terminator included, and all
  other lines are as they were. When no line matches, the write succeeds all the same
  and the sequence is written as it is.
\<close>

theorem count_line_rewritten:
  assumes "write_live_streams os ts f p original_lines idxs stations strategy = (f', Inr b)"
  shows "\<exists>ls out.
           placed_lines original_lines idxs stations strategy = Inr ls
         \<and> new_document_lines original_lines idxs stations strategy = Inr out
         \<and> content_at f' p = Some (translate_newlines os (concat out))
         \<and> (\<forall>a w1 w2 w3 ds w4 nl rest.
               ls = a @ (w1 @ ''stream_data'' @ w2 @ '':'' @ w3 @ ds @ w4 @ nl) # rest
               \<and> (\<forall>l\<in>set a. re_match STREAM_COUNT_RE (rstrip_nl l) = None)
               \<and> (\<forall>c\<in>set (w1 @ w2 @ w3 @ w4). is_space c)
               \<and> ds \<noteq> [] \<and> (\<forall>c\<in>set ds. is_digit c)
               \<and> (w4 = [] \<or> last w4 \<noteq> LF) \<and> (nl = [] \<or> nl = [LF])
             \<longrightarrow> out = a @ (w1 @ ''stream_data'' @ w2 @ '':'' @ w3 @ dec_nat (length stations)
                                @ w4 @ nl) # rest)
         \<and> ((\<forall>l\<in>set ls. re_match STREAM_COUNT_RE (rstrip_nl l) = None) \<longrightarrow> out = ls)"
proof -
  from write_steps[OF assms] obtain f2 out where
    nd: "new_document_lines original_lines idxs stations strategy = Inr out"
    and w2: "write_text os f2 p (concat out) = Inr f'"
    by blast
  from nd obtain ls where pl: "placed_lines original_lines idxs stations strategy = Inr ls"
    and out: "out = fst (update_stream_data_count_line ls (length stations))"
    by (auto simp: new_document_lines_def split: sum.splits)
  have c: "content_at f' p = Some (translate_newlines os (concat out))"
    using w2 by (rule write_text_content)
  have form: "\<forall>a w1 w2 w3 ds w4 nl rest.
               ls = a @ (w1 @ ''stream_data'' @ w2 @ '':'' @ w3 @ ds @ w4 @ nl) # rest
               \<and> (\<forall>l\<in>set a. re_match STREAM_COUNT_RE (rstrip_nl l) = None)
               \<and> (\<forall>c\<in>set (w1 @ w2 @ w3 @ w4). is_space c)
               \<and> ds \<noteq> [] \<and> (\<forall>c\<in>set ds. is_digit c)
               \<and> (w4 = [] \<or> last w4 \<noteq> LF) \<and> (nl = [] \<or> nl = [LF])
             \<longrightarrow> out = a @ (w1 @ ''stream_data'' @ w2 @ '':'' @ w3 @ dec_nat (length stations)
                                @ w4 @ nl) # rest"
  proof (intro allI impI, elim conjE)
    fix a w1 w2 w3 ds w4 nl rest
    let ?l = "w1 @ ''stream_data'' @ w2 @ '':'' @ w3 @ ds @ w4 @ nl"
    assume ls: "ls = a @ ?l # rest"
      and na: "\<forall>l\<in>set a. re_match STREAM_COUNT_RE (rstrip_nl l) = None"
      and sp: "\<forall>c\<in>set (w1 @ w2 @ w3 @ w4). is_space c"
      and dg: "ds \<noteq> []" "\<forall>c\<in>set ds. is_digit c"
      and w4: "w4 = [] \<or> last w4 \<noteq> LF" and nl: "nl = [] \<or> nl = [LF]"
    note m = count_form_line[OF sp dg w4 nl]
    from update_first_match[OF m(1) na, of rest "length stations"]
    have "out = a @ count_line [w1 @ ''stream_data'' @ w2 @ '':'' @ w3 @ ds @ w4,
                   w1 @ ''stream_data'' @ w2 @ '':'' @ w3, ds, w4] ?l (length stations) # rest"
      unfolding out ls by simp
    moreover have "count_line [w1 @ ''stream_data'' @ w2 @ '':'' @ w3 @ ds @ w4,
                   w1 @ ''stream_data'' @ w2 @ '':'' @ w3, ds, w4] ?l (length stations)
        = w1 @ ''stream_data'' @ w2 @ '':'' @ w3 @ dec_nat (length stations) @ w4 @ nl"
      unfolding count_line_def Let_def m(2) using nl by (auto simp: eval_nat_numeral)
    ultimately show "out = a @ (w1 @ ''stream_data'' @ w2 @ '':'' @ w3 @ dec_nat (length stations)
                                @ w4 @ nl) # rest"
      by simp
  qed
  have none: "(\<forall>l\<in>set ls. re_match STREAM_COUNT_RE (rstrip_nl l) = None) \<longrightarrow> out = ls"
    unfolding out by (auto simp: update_no_match)
  from pl nd c form none show ?thesis by blast
qed

theorem count_line_rewritten_witness:
  "new_document_lines [''stream_data: 1'' @ [LF], line_a] [1] [station_a, station_a] ''in_place''
     = Inr ([] @ ([] @ ''stream_data'' @ [] @ '':'' @ '' '' @ dec_nat (length [station_a, station_a])
                  @ [] @ [LF]) # [line_a, line_a1])
   \<and> content_at (fst (write_live_streams Posix ''20240101_000000'' fs_one doc_path
                        [''stream_data: 1'' @ [LF], line_a] [1] [station_a, station_a] ''in_place''))
         doc_path
       = Some (translate_newlines Posix (concat
           ([] @ ([] @ ''stream_data'' @ [] @ '':'' @ '' '' @ dec_nat (length [station_a, station_a])
                  @ [] @ [LF]) # [line_a, line_a1])))
   \<and> new_document_lines [doc_negative] [0] [station_negative] ''in_place'' = Inr [doc_negative]"
proof -
  define W where "W = write_live_streams Posix ''20240101_000000'' fs_one doc_path
                        [''stream_data: 1'' @ [LF], line_a] [1] [station_a, station_a] ''in_place''"
  have s: "snd W = Inr [''docs'', ''live_streams_backup'', ''live_streams.sii.bak_20240101_000000'']"
    unfolding W_def by code_simp
  have "W = (fst W, snd W)" by simp
  then have e: "write_live_streams Posix ''20240101_000000'' fs_one doc_path
                        [''stream_data: 1'' @ [LF], line_a] [1] [station_a, station_a] ''in_place''
       = (fst W, Inr [''docs'', ''live_streams_backup'', ''live_streams.sii.bak_20240101_000000''])"
    unfolding s unfolding W_def .
  from count_line_rewritten[OF e] obtain ls out where
    pl: "placed_lines [''stream_data: 1'' @ [LF], line_a] [1] [station_a, station_a] ''in_place'' = Inr ls"
    and nd: "new_document_lines [''stream_data: 1'' @ [LF], line_a] [1] [station_a, station_a] ''in_place''
               = Inr out"
    and c: "content_at (fst W) doc_path = Some (translate_newlines Posix (concat out))"
    and form: "\<forall>a w1 w2 w3 ds w4 nl rest.
               ls = a @ (w1 @ ''stream_data'' @ w2 @ '':'' @ w3 @ ds @ w4 @ nl) # rest
               \<and> (\<forall>l\<in>set a. re_match STREAM_COUNT_RE (rstrip_nl l) = None)
               \<and> (\<forall>c\<in>set (w1 @ w2 @ w3 @ w4). is_space c)
               \<and> ds \<noteq> [] \<and> (\<forall>c\<in>set ds. is_digit c)
               \<and> (w4 = [] \<or> last w4 \<noteq> LF) \<and> (nl = [] \<or> nl = [LF])
             \<longrightarrow> out = a @ (w1 @ ''stream_data'' @ w2 @ '':'' @ w3
                                @ dec_nat (length [station_a, station_a]) @ w4 @ nl) # rest"
    by blast
  have pe: "placed_lines [''stream_data: 1'' @ [LF], line_a] [1] [station_a, station_a] ''in_place''
              = Inr ([] @ ([] @ ''stream_data'' @ [] @ '':'' @ '' '' @ ''1'' @ [] @ [LF])
                     # [line_a, line_a1])"
    by code_simp
  from pl[unfolded pe]
  have "[] @ ([] @ ''stream_data'' @ [] @ '':'' @ '' '' @ ''1'' @ [] @ [LF]) # [line_a, line_a1] = ls"
    by (rule sum.inject(2)[THEN iffD1])
  then have h1: "ls = [] @ ([] @ ''stream_data'' @ [] @ '':'' @ '' '' @ ''1'' @ [] @ [LF])
                     # [line_a, line_a1]"
    by (rule sym)
  have h2: "\<forall>l\<in>set ([] :: string list). re_match STREAM_COUNT_RE (rstrip_nl l) = None" by simp
  have h3: "\<forall>c\<in>set ([] @ [] @ '' '' @ []). is_space c" by code_simp
  have h4: "''1'' \<noteq> []" and h5: "\<forall>c\<in>set ''1''. is_digit c" by code_simp+
  have h6: "([] :: string) = [] \<or> last [] \<noteq> LF" and h7: "[LF] = [] \<or> [LF] = [LF]" by simp_all
  from form[rule_format, of "[]" "[]" "[]" "'' ''" "''1''" "[]" "[LF]" "[line_a, line_a1]",
      OF conjI[OF h1 conjI[OF h2 conjI[OF h3 conjI[OF h4 conjI[OF h5 conjI[OF h6 h7]]]]]]]
  have o: "out = [] @ ([] @ ''stream_data'' @ [] @ '':'' @ '' ''
                       @ dec_nat (length [station_a, station_a]) @ [] @ [LF]) # [line_a, line_a1]" .
  have n: "new_document_lines [doc_negative] [0] [station_negative] ''in_place'' = Inr [doc_negative]"
    by code_simp
  from nd c n show ?thesis unfolding o W_def by (intro conjI)
qed

section \<open>Writing: the lines that are not station lines\<close>



















end
